theory Spec2Isabelle
  imports Main "HOL-Library.Word"
begin

unbundle bit_operations_syntax

section \<open>direnv: the configuration unit (rc.go) and the dump command (cmd\_dump.go)\<close>

text \<open>
  The two Go files are embedded function by function. What they call but do not define is
  of two kinds. The Go standard library and the operating system (path/filepath, os,
  strconv, the file system, the process's open files) are modelled by what their
  documentation and sources say, each before its first use. The rest of package main
  (\<open>Env\<close>, \<open>FileTimes\<close>, \<open>LoadEnv\<close>, \<open>DetectShell\<close>, ...) is not part of the
  two files: it is a record of parameters, \<open>pkg\<close>, and every theorem holds for every
  value of it.
\<close>

subsection \<open>Errors and abnormal termination\<close>

datatype error =
    Errorf string  \<comment> \<open>\<open>fmt.Errorf\<close> with the formatted message\<close>
  | ENOENT | ENOTDIR | EISDIR | EACCES | ENOTEMPTY | EEXIST
  | GetwdError     \<comment> \<open>\<open>os.Getwd\<close> failed\<close>
  | ErrSyntax | ErrRange  \<comment> \<open>\<open>strconv.ParseUint\<close>\<close>
  | RelError       \<comment> \<open>\<open>filepath.Rel\<close> failed\<close>
  | ExitError string  \<comment> \<open>the subprocess could not be started or exited non-zero\<close>
  | DecodeError string  \<comment> \<open>\<open>LoadEnv\<close> rejected the text\<close>

text \<open>A Go function either returns or panics.\<close>

datatype 'a outcome = Panics | Returns 'a

subsection \<open>Strings and path/filepath (Unix)\<close>

definition sep :: char where
  "sep = CHR ''/''"

text \<open>\<open>strings.HasPrefix\<close>.\<close>

definition HasPrefix :: "string \<Rightarrow> string \<Rightarrow> bool" where
  "HasPrefix s pre = (take (length pre) s = pre)"

text \<open>
  \<open>strings.Split(s, "/")\<close>: never empty, \<open>n\<close> separators give \<open>n + 1\<close> fields.
  A byte that is not the separator goes to the front of the first field of the rest.
\<close>

fun split_sep :: "string \<Rightarrow> string list" where
  "split_sep [] = ['''']"
| "split_sep (c # s) =
     (if c = sep then [] # split_sep s
      else (case split_sep s of
              [] \<Rightarrow> [c] # []
            | x # xs \<Rightarrow> (c # x) # xs))"

text \<open>\<open>strings.Join(xs, "/")\<close>.\<close>

fun join_sep :: "string list \<Rightarrow> string" where
  "join_sep [] = []"
| "join_sep [x] = x"
| "join_sep (x # y # ys) = x @ sep # join_sep (y # ys)"

text \<open>
  \<open>filepath.Clean\<close> is purely lexical. It reads the path element by element and keeps a
  stack of the elements of the result: an empty element and \<open>.\<close> are dropped, \<open>..\<close>
  removes the element before it when there is one that is not itself \<open>..\<close>, is dropped
  at the root of a rooted path, and is kept otherwise.
\<close>

definition clean_step :: "bool \<Rightarrow> string list \<Rightarrow> string \<Rightarrow> string list" where
  "clean_step rooted out c =
     (if c = [] \<or> c = ''.'' then out
      else if c = ''..'' then
        (if out \<noteq> [] \<and> last out \<noteq> ''..'' then butlast out
         else if rooted then out
         else out @ [''..''])
      else out @ [c])"

definition clean_elems :: "bool \<Rightarrow> string \<Rightarrow> string list" where
  "clean_elems rooted p = foldl (clean_step rooted) [] (split_sep p)"

definition IsAbs :: "string \<Rightarrow> bool" where
  "IsAbs p = (p \<noteq> [] \<and> hd p = sep)"

definition Clean :: "string \<Rightarrow> string" where
  "Clean p =
     (if p = [] then ''.''
      else if IsAbs p then sep # join_sep (clean_elems True p)
      else if clean_elems False p = [] then ''.''
      else join_sep (clean_elems False p))"

text \<open>
  \<open>filepath.Join\<close>: leading empty elements are skipped, the rest is joined with the
  separator and cleaned; when every element is empty the result is empty.
\<close>

definition Join :: "string list \<Rightarrow> string" where
  "Join elems =
     (case dropWhile (\<lambda>e. e = []) elems of
        [] \<Rightarrow> []
      | es \<Rightarrow> Clean (join_sep es))"

text \<open>\<open>filepath.Dir\<close>: everything up to the last separator, cleaned.\<close>

definition Dir :: "string \<Rightarrow> string" where
  "Dir p = Clean (rev (dropWhile (\<lambda>c. c \<noteq> sep) (rev p)))"

subsection \<open>The file system and the process\<close>

text \<open>
  A file system is a store from locations to objects, together with the kernel's name
  resolution: \<open>resolve p\<close> is the location at which the resolution of the textual path
  \<open>p\<close> ends, relative paths taken from the working directory and every symbolic link
  on the way followed. The program creates and removes directories and regular files
  only, never a link, and never changes directory, so \<open>resolve\<close> and \<open>getwd\<close> are
  the same before and after each of its operations. \<open>getwd\<close> is what \<open>os.Getwd\<close>
  returns, \<open>None\<close> when it fails.
\<close>

datatype inode = Directory | File (readable: bool) (writable: bool) (bytes: string)

record filesystem =
  getwd :: "string option"
  resolve :: "string \<Rightarrow> string"
  inodes :: "string \<rightharpoonup> inode"

text \<open>\<open>os.Stat\<close> follows links; the empty path names nothing.\<close>

definition Stat :: "filesystem \<Rightarrow> string \<Rightarrow> error + inode" where
  "Stat fs p =
     (if p = [] then Inl ENOENT
      else case inodes fs (resolve fs p) of
             None \<Rightarrow> Inl ENOENT
           | Some n \<Rightarrow> Inr n)"

text \<open>
  \<open>os.Open\<close> opens for reading: it fails on a missing or unreadable file and succeeds
  on a directory, whose bytes cannot be read afterwards (\<open>io.Copy\<close> fails).
\<close>

definition Open :: "filesystem \<Rightarrow> string \<Rightarrow> error + inode" where
  "Open fs p =
     (case Stat fs p of
        Inl e \<Rightarrow> Inl e
      | Inr Directory \<Rightarrow> Inr Directory
      | Inr (File r w d) \<Rightarrow> if r then Inr (File r w d) else Inl EACCES)"

definition read_all :: "inode \<Rightarrow> error + string" where
  "read_all fd = (case fd of Directory \<Rightarrow> Inl EISDIR | File r w d \<Rightarrow> Inr d)"

text \<open>
  \<open>os.Mkdir\<close> makes one directory, in an existing directory. \<open>os.MkdirAll\<close>: an
  existing directory is success, an existing file is an error; otherwise the parent is
  made first (the path without its last element and the separators around it, when
  something is left), then the directory itself, and a failure of that last step is
  forgiven when the directory is there after all.
\<close>

definition Mkdir :: "filesystem \<Rightarrow> string \<Rightarrow> error + filesystem" where
  "Mkdir fs p =
     (case Stat fs p of
        Inr n \<Rightarrow> Inl EEXIST
      | Inl e \<Rightarrow>
          if p = [] then Inl ENOENT
          else case inodes fs (Dir (resolve fs p)) of
                 None \<Rightarrow> Inl ENOENT
               | Some (File r w x) \<Rightarrow> Inl ENOTDIR
               | Some Directory \<Rightarrow>
                   Inr (fs\<lparr>inodes := (inodes fs)(resolve fs p \<mapsto> Directory)\<rparr>))"

definition mkdir_last :: "filesystem \<Rightarrow> string \<Rightarrow> error + filesystem" where
  "mkdir_last fs p =
     (case Mkdir fs p of
        Inr fs' \<Rightarrow> Inr fs'
      | Inl e \<Rightarrow>
          (case Stat fs p of
             Inr Directory \<Rightarrow> Inr fs
           | Inr (File r w d) \<Rightarrow> Inl e
           | Inl e' \<Rightarrow> Inl e))"

function MkdirAll :: "filesystem \<Rightarrow> string \<Rightarrow> error + filesystem" where
  "MkdirAll fs p =
     (case Stat fs p of
        Inr Directory \<Rightarrow> Inr fs
      | Inr (File r w d) \<Rightarrow> Inl ENOTDIR
      | Inl e \<Rightarrow>
          (let q = rev (dropWhile (\<lambda>c. c = sep) (rev p));
               parent = rev (dropWhile (\<lambda>c. c = sep)
                              (dropWhile (\<lambda>c. c \<noteq> sep) (rev q)))
           in if parent \<noteq> [] \<and> length parent < length p then
                (case MkdirAll fs parent of
                   Inl e' \<Rightarrow> Inl e'
                 | Inr fs' \<Rightarrow> mkdir_last fs' p)
              else mkdir_last fs p))"
  by pat_completeness auto
termination
  by (relation "measure (\<lambda>(fs, p). length p)") auto

declare MkdirAll.simps [simp del]

text \<open>
  \<open>ioutil.WriteFile\<close> creates or truncates a regular file in an existing directory:
  the directory of the file's location must be there, the location must not be a
  directory, and an existing file must be writable. A new file is created readable and
  writable (mode 0644).
\<close>

definition WriteFile :: "filesystem \<Rightarrow> string \<Rightarrow> string \<Rightarrow> error + filesystem" where
  "WriteFile fs p d =
     (if p = [] then Inl ENOENT
      else case inodes fs (Dir (resolve fs p)) of
             None \<Rightarrow> Inl ENOENT
           | Some (File r w x) \<Rightarrow> Inl ENOTDIR
           | Some Directory \<Rightarrow>
               (case inodes fs (resolve fs p) of
                  Some Directory \<Rightarrow> Inl EISDIR
                | Some (File r w x) \<Rightarrow>
                    if w then Inr (fs\<lparr>inodes := (inodes fs)(resolve fs p \<mapsto> File r w d)\<rparr>)
                    else Inl EACCES
                | None \<Rightarrow>
                    Inr (fs\<lparr>inodes := (inodes fs)(resolve fs p \<mapsto> File True True d)\<rparr>)))"

text \<open>
  \<open>os.Remove\<close> removes a file or an empty directory. A directory is empty when no
  other location has it as its directory.
\<close>

definition Remove :: "filesystem \<Rightarrow> string \<Rightarrow> error + filesystem" where
  "Remove fs p =
     (case Stat fs p of
        Inl e \<Rightarrow> Inl e
      | Inr (File r w d) \<Rightarrow> Inr (fs\<lparr>inodes := (inodes fs)(resolve fs p := None)\<rparr>)
      | Inr Directory \<Rightarrow>
          if \<exists>k. inodes fs k \<noteq> None \<and> k \<noteq> resolve fs p \<and> Dir k = resolve fs p
          then Inl ENOTEMPTY
          else Inr (fs\<lparr>inodes := (inodes fs)(resolve fs p := None)\<rparr>))"

text \<open>\<open>filepath.Abs\<close>: lexical as well; a relative path is joined to the working directory.\<close>

definition Abs :: "filesystem \<Rightarrow> string \<Rightarrow> error + string" where
  "Abs fs p =
     (if IsAbs p then Inr (Clean p)
      else case getwd fs of
             None \<Rightarrow> Inl GetwdError
           | Some wd \<Rightarrow> Inr (Join [wd, p]))"

subsection \<open>The rest of package main\<close>

text \<open>
  \<open>Env\<close> is \<open>map[string]string\<close>. A Go map is a reference; here it is a value, and
  an assignment to a key of a map is an update of that map alone.
\<close>

type_synonym Env = "string \<rightharpoonup> string"

text \<open>
  Modelled from the spec: \<open>Env.Copy\<close> is not in the two files; the spec's \<open>copy()\<close>
  is an independent duplicate, whose mutation never affects the original. With maps as
  values that is the map itself.
\<close>

definition Copy :: "Env \<Rightarrow> Env" where
  "Copy env = env"

text \<open>
  Modelled from the spec: the three reserved keys (directory marker, watch metadata, diff
  marker) are constants declared outside the two files. Each is given the string of its
  Go name; the three are distinct and begin with the reserved prefix.
\<close>

definition DIRENV_DIR :: string where
  "DIRENV_DIR = ''DIRENV_DIR''"

definition DIRENV_WATCHES :: string where
  "DIRENV_WATCHES = ''DIRENV_WATCHES''"

definition DIRENV_DIFF :: string where
  "DIRENV_DIFF = ''DIRENV_DIFF''"

text \<open>
  Modelled from the spec: the reserved prefix of the metadata keys is not in the two
  files; a key is user-visible when it does not begin with it.
\<close>

definition reserved :: "string \<Rightarrow> bool" where
  "reserved k = HasPrefix k ''DIRENV_''"

text \<open>The fields of \<open>Config\<close> that the two files read, and its method \<open>AllowDir()\<close>.\<close>

record Config =
  AllowDir :: string
  WhitelistExact :: "string \<Rightarrow> bool"  \<comment> \<open>\<open>map[string]bool\<close>: a missing key reads false\<close>
  WhitelistPrefix :: "string list"
  WorkDir :: string
  SelfPath :: string
  BashPath :: string
  DisableStdin :: bool

text \<open>
  What \<open>exec.Command\<close> and the assignments to the command's fields set up;
  \<open>exec.Command\<close> puts the program's name in front of the arguments.
\<close>

datatype stdin = DevNull | OsStdin

record Cmd =
  cmd_Path :: string
  cmd_Args :: "string list"
  cmd_Stdin :: stdin
  cmd_Env :: "string list"
  cmd_Dir :: string

text \<open>
  The parameters: \<open>'ft\<close> is the type \<open>FileTimes\<close>, \<open>'d\<close> the type \<open>EnvDiff\<close>.
  \<open>Update\<close> stats a path, so it reads the file system. \<open>DetectShell\<close> returns the
  \<open>Dump\<close> method of the shell it finds. Three things from outside the package are
  parameters as well: the SHA-256 digest of a byte string, \<open>filepath.Rel\<close>, and
  \<open>Output\<close>, which is \<open>cmd.Output()\<close>: it runs the subprocess and returns what it
  wrote to its standard output, or an error.
\<close>

record ('ft, 'd) pkg =
  sha256 :: "string \<Rightarrow> 256 word"
  Rel :: "string \<Rightarrow> string \<Rightarrow> error + string"
  NewFileTimes :: 'ft
  Update :: "filesystem \<Rightarrow> string \<Rightarrow> 'ft \<Rightarrow> 'ft"
  Marshal :: "'ft \<Rightarrow> string"
  Unmarshal :: "string \<Rightarrow> 'ft \<Rightarrow> 'ft"
  Diff :: "Env \<Rightarrow> Env \<Rightarrow> 'd"
  Serialize :: "'d \<Rightarrow> string"
  ToGoEnv :: "Env \<Rightarrow> string list"
  LoadEnv :: "string \<Rightarrow> error + Env"
  Output :: "filesystem \<Rightarrow> Cmd \<Rightarrow> error + string"
  DetectShell :: "string \<Rightarrow> (Env \<Rightarrow> string) option"

text \<open>\<open>fmt.Sprintf("%x", sum)\<close>: the 32 bytes of the digest, two lower-case hex digits each.\<close>

definition hex_digit :: "nat \<Rightarrow> char" where
  "hex_digit n = ''0123456789abcdef'' ! (n mod 16)"

definition hex :: "256 word \<Rightarrow> string" where
  "hex w = map (\<lambda>i. hex_digit (unat (drop_bit (4 * (63 - i)) w AND 15))) [0..<64]"

subsection \<open>rc.go\<close>

record 'ft RC =
  path :: string
  allowPath :: string
  times :: 'ft
  config :: Config

definition fileExists :: "filesystem \<Rightarrow> string \<Rightarrow> bool" where
  "fileExists fs p = (case Stat fs p of Inl e \<Rightarrow> False | Inr n \<Rightarrow> True)"

definition fileHash :: "('ft, 'd) pkg \<Rightarrow> filesystem \<Rightarrow> string \<Rightarrow> error + string" where
  "fileHash pk fs p0 =
     (case Abs fs p0 of
        Inl e \<Rightarrow> Inl e
      | Inr p \<Rightarrow>
          (case Open fs p of
             Inl e \<Rightarrow> Inl e
           | Inr fd \<Rightarrow>
               (case read_all fd of
                  Inl e \<Rightarrow> Inl e
                | Inr contents \<Rightarrow> Inr (hex (sha256 pk (p @ [CHR 0x0A] @ contents))))))"

definition allow :: "filesystem \<Rightarrow> string \<Rightarrow> string \<Rightarrow> error + filesystem" where
  "allow fs p ap = WriteFile fs ap (p @ [CHR 0x0A])"

text \<open>
  \<open>eachDir\<close>: the loop runs \<open>i\<close> from \<open>len(path) - 1\<close> down to 0 and reads \<open>path[i]\<close>
  of the path as truncated so far; the argument \<open>n\<close> is \<open>i + 1\<close>. The truncation at
  \<open>i\<close> leaves \<open>i\<close> bytes, and \<open>"/"\<close> replaces the empty path only at \<open>i = 0\<close>, so
  the index is always in range.
\<close>

fun eachDir_loop :: "string \<Rightarrow> nat \<Rightarrow> string list \<Rightarrow> string list" where
  "eachDir_loop p 0 paths = paths"
| "eachDir_loop p (Suc i) paths =
     (if p ! i = sep then
        (let p1 = take i p; p2 = (if p1 = [] then [sep] else p1)
         in eachDir_loop p2 i (paths @ [p2]))
      else eachDir_loop p i paths)"

definition eachDir :: "filesystem \<Rightarrow> string \<Rightarrow> string list" where
  "eachDir fs p0 =
     (case Abs fs p0 of
        Inl e \<Rightarrow> []
      | Inr p \<Rightarrow> if p = [sep] then [p] else eachDir_loop p (length p) [p])"

fun findUp_loop :: "filesystem \<Rightarrow> string list \<Rightarrow> string \<Rightarrow> string" where
  "findUp_loop fs [] fileName = []"
| "findUp_loop fs (dir # dirs) fileName =
     (if fileExists fs (Join [dir, fileName]) then Join [dir, fileName]
      else findUp_loop fs dirs fileName)"

definition findUp :: "filesystem \<Rightarrow> string \<Rightarrow> string \<Rightarrow> string" where
  "findUp fs searchDir fileName = findUp_loop fs (eachDir fs searchDir) fileName"

definition RCFromPath ::
  "('ft, 'd) pkg \<Rightarrow> filesystem \<Rightarrow> string \<Rightarrow> Config \<Rightarrow> 'ft RC option" where
  "RCFromPath pk fs p cfg =
     (case fileHash pk fs p of
        Inl e \<Rightarrow> None
      | Inr h \<Rightarrow>
          (let ap = Join [AllowDir cfg, h];
               t0 = NewFileTimes pk;
               t1 = Update pk fs p t0;
               t2 = Update pk fs ap t1
           in Some \<lparr>path = p, allowPath = ap, times = t2, config = cfg\<rparr>))"

definition FindRC ::
  "('ft, 'd) pkg \<Rightarrow> filesystem \<Rightarrow> string \<Rightarrow> Config \<Rightarrow> 'ft RC option" where
  "FindRC pk fs wd cfg =
     (let rcPath = findUp fs wd ''.envrc''
      in if rcPath = [] then None else RCFromPath pk fs rcPath cfg)"

definition RCFromEnv :: "('ft, 'd) pkg \<Rightarrow> string \<Rightarrow> string \<Rightarrow> Config \<Rightarrow> 'ft RC" where
  "RCFromEnv pk p marshalled_times cfg =
     (let t = Unmarshal pk marshalled_times (NewFileTimes pk)
      in \<lparr>path = p, allowPath = [], times = t, config = cfg\<rparr>)"

text \<open>\<open>Allow\<close> changes the file system and the receiver's \<open>times\<close>; both are returned.\<close>

definition Allow ::
  "('ft, 'd) pkg \<Rightarrow> filesystem \<Rightarrow> 'ft RC \<Rightarrow> error + (filesystem \<times> 'ft RC)" where
  "Allow pk fs rc =
     (if allowPath rc = [] then Inl (Errorf ''cannot allow empty path'')
      else case MkdirAll fs (Dir (allowPath rc)) of
             Inl e \<Rightarrow> Inl e
           | Inr fs1 \<Rightarrow>
               (case allow fs1 (path rc) (allowPath rc) of
                  Inl e \<Rightarrow> Inl e
                | Inr fs2 \<Rightarrow>
                    Inr (fs2, rc\<lparr>times := Update pk fs2 (allowPath rc) (times rc)\<rparr>)))"

definition Deny :: "filesystem \<Rightarrow> 'ft RC \<Rightarrow> error + filesystem" where
  "Deny fs rc = Remove fs (allowPath rc)"

fun prefix_loop :: "string \<Rightarrow> string list \<Rightarrow> bool" where
  "prefix_loop p [] = False"
| "prefix_loop p (prefix # rest) =
     (if HasPrefix p prefix then True else prefix_loop p rest)"

definition Allowed :: "filesystem \<Rightarrow> 'ft RC \<Rightarrow> bool" where
  "Allowed fs rc =
     (case Stat fs (allowPath rc) of
        Inr n \<Rightarrow> True
      | Inl e \<Rightarrow>
          (case Abs fs (path rc) of
             Inl e' \<Rightarrow> False
           | Inr p \<Rightarrow>
               if WhitelistExact (config rc) p then True
               else prefix_loop p (WhitelistPrefix (config rc))))"

text \<open>
  \<open>rootDir\<close> panics when \<open>filepath.Abs\<close> fails, and \<open>path[1:]\<close> panics on the empty
  string.
\<close>

definition rootDir :: "filesystem \<Rightarrow> string \<Rightarrow> string outcome" where
  "rootDir fs p0 =
     (case Abs fs p0 of
        Inl e \<Rightarrow> Panics
      | Inr p \<Rightarrow>
          if p = [] then Panics
          else if sep \<notin> set (tl p) then Returns p
          else Returns (take (Suc (length (takeWhile (\<lambda>c. c \<noteq> sep) (tl p)))) p))"

definition RelTo :: "('ft, 'd) pkg \<Rightarrow> filesystem \<Rightarrow> 'ft RC \<Rightarrow> string \<Rightarrow> string outcome" where
  "RelTo pk fs rc wd =
     (case rootDir fs wd of
        Panics \<Rightarrow> Panics
      | Returns a \<Rightarrow>
          (case rootDir fs (path rc) of
             Panics \<Rightarrow> Panics
           | Returns b \<Rightarrow>
               if a \<noteq> b then Returns (path rc)
               else (case Rel pk wd (path rc) of
                       Inl e \<Rightarrow> Panics
                     | Inr x \<Rightarrow> Returns x)))"

definition NOT_ALLOWED :: "string \<Rightarrow> string" where
  "NOT_ALLOWED s = s @ '' is blocked. Run `direnv allow` to approve its content''"

definition RecordState :: "('ft, 'd) pkg \<Rightarrow> 'ft RC \<Rightarrow> Env \<Rightarrow> Env \<Rightarrow> Env" where
  "RecordState pk rc env newEnv =
     (let e1 = newEnv(DIRENV_DIR \<mapsto> ''-'' @ Dir (path rc))
      in e1(DIRENV_DIFF \<mapsto> Serialize pk (Diff pk env e1)))"

text \<open>
  \<open>Load\<close>. The deferred call to \<open>RecordState\<close> runs on every return, on the map that
  \<open>newEnv\<close> names at that moment. The result carries, after the environment and the
  error, the commands that were run. Both calls of \<open>RelTo\<close> can panic, and then \<open>Load\<close>
  returns nothing.
\<close>

definition dquote :: string where
  "dquote = [CHR 0x22]"

definition load_arg :: "string \<Rightarrow> string \<Rightarrow> string" where
  "load_arg direnv rel =
     ''eval '' @ dquote @ ''$('' @ dquote @ direnv @ dquote @ '' stdlib)'' @ dquote
       @ '' >&2 && source_env '' @ dquote @ rel @ dquote
       @ '' >&2 && '' @ dquote @ direnv @ dquote @ '' dump''"

definition Load ::
  "('ft, 'd) pkg \<Rightarrow> filesystem \<Rightarrow> 'ft RC \<Rightarrow> Config \<Rightarrow> Env
     \<Rightarrow> (Env \<times> error option \<times> Cmd list) outcome" where
  "Load pk fs rc cfg env =
     (let wd = WorkDir cfg;
          direnv = SelfPath cfg;
          newEnv = (Copy env)(DIRENV_WATCHES \<mapsto> Marshal pk (times rc))
      in if \<not> Allowed fs rc then
           (case RelTo pk fs rc wd of
              Panics \<Rightarrow> Panics
            | Returns rel \<Rightarrow>
                Returns (RecordState pk rc env newEnv, Some (Errorf (NOT_ALLOWED rel)), []))
         else
           (case RelTo pk fs rc wd of
              Panics \<Rightarrow> Panics
            | Returns rel \<Rightarrow>
                (let arg = load_arg direnv rel;
                     args = [BashPath cfg, ''--noprofile'', ''--norc'', ''-c'', arg]
                 in case (if DisableStdin cfg
                          then (case Open fs ''/dev/null'' of
                                  Inl e \<Rightarrow> Inl e
                                | Inr fd \<Rightarrow> Inr DevNull)
                          else Inr OsStdin) of
                      Inl e \<Rightarrow> Returns (RecordState pk rc env newEnv, Some e, [])
                    | Inr inp \<Rightarrow>
                        (let cmd = \<lparr>cmd_Path = BashPath cfg, cmd_Args = args,
                                    cmd_Stdin = inp, cmd_Env = ToGoEnv pk newEnv,
                                    cmd_Dir = wd\<rparr>
                         in case Output pk fs cmd of
                              Inl e \<Rightarrow> Returns (RecordState pk rc env newEnv, Some e, [cmd])
                            | Inr out \<Rightarrow>
                                (case LoadEnv pk out of
                                   Inl e \<Rightarrow>
                                     Returns (RecordState pk rc env newEnv, Some e, [cmd])
                                 | Inr newEnv2 \<Rightarrow>
                                     Returns (RecordState pk rc env newEnv2, None, [cmd]))))))"

subsection \<open>cmd\_dump.go\<close>

text \<open>
  \<open>strconv.ParseUint(s, 10, 32)\<close>: a non-empty string of decimal digits whose value is
  below \<open>2 ^ 32\<close>; the result has type \<open>uint64\<close>. The digits are read from the
  left, and the first byte that is no digit, or the first digit that takes the value out
  of range, ends the parse with its error. \<open>digits_value\<close> is the number a string of
  digits denotes.
\<close>

definition is_digit :: "char \<Rightarrow> bool" where
  "is_digit c = ((48::nat) \<le> of_char c \<and> (of_char c :: nat) \<le> 57)"

definition digits_value :: "string \<Rightarrow> nat" where
  "digits_value s = foldl (\<lambda>a c. 10 * a + (of_char c - 48)) 0 s"

fun parse_loop :: "nat \<Rightarrow> string \<Rightarrow> error + nat" where
  "parse_loop n [] = Inr n"
| "parse_loop n (c # cs) =
     (if \<not> is_digit c then Inl ErrSyntax
      else if 10 * n + (of_char c - 48) \<ge> 2 ^ 32 then Inl ErrRange
      else parse_loop (10 * n + (of_char c - 48)) cs)"

definition ParseUint :: "string \<Rightarrow> error + 64 word" where
  "ParseUint s =
     (if s = [] then Inl ErrSyntax
      else case parse_loop 0 s of
             Inl e \<Rightarrow> Inl e
           | Inr n \<Rightarrow> Inr (of_nat n))"

text \<open>
  \<open>os.NewFile(uintptr(fd), name)\<close> returns nil when the descriptor, read as a (64-bit)
  \<open>int\<close>, is negative. The open files of the process are a map from descriptor numbers
  to what has been written to each; \<open>WriteString\<close> on a descriptor that is not open
  fails, and \<open>CmdDump\<close> ignores its result. Standard output is descriptor 1.
\<close>

definition NewFile :: "64 word \<Rightarrow> nat option" where
  "NewFile fd = (if sint fd < 0 then None else Some (unat fd))"

definition Stdout :: nat where
  "Stdout = 1"

type_synonym files = "nat \<rightharpoonup> string"

definition WriteString :: "files \<Rightarrow> nat \<Rightarrow> string \<Rightarrow> files" where
  "WriteString fds fd s =
     (case fds fd of None \<Rightarrow> fds | Some old \<Rightarrow> fds(fd \<mapsto> old @ s))"

text \<open>The action of \<open>CmdDump\<close>: \<open>args[0]\<close> is the command's own name.\<close>

definition CmdDump ::
  "('ft, 'd) pkg \<Rightarrow> files \<Rightarrow> Env \<Rightarrow> string list \<Rightarrow> error option \<times> files" where
  "CmdDump pk fds env args =
     (let target = (if length args > 1 then args ! 1 else ''gzenv'')
      in case (if length args > 2 then
                 (case ParseUint (args ! 2) of
                    Inl e \<Rightarrow> Inl e
                  | Inr fd \<Rightarrow>
                      (case NewFile fd of
                         None \<Rightarrow> Inl (Errorf (''fd '' @ args ! 2 @ '' is not valid''))
                       | Some f \<Rightarrow> Inr f))
               else Inr Stdout) of
           Inl e \<Rightarrow> (Some e, fds)
         | Inr out \<Rightarrow>
             (case DetectShell pk target of
                None \<Rightarrow>
                  (Some (Errorf (''unknown target shell '' @ [CHR 0x27] @ target @ [CHR 0x27])),
                   fds)
              | Some dump \<Rightarrow> (None, WriteString fds out (dump env))))"

subsection \<open>Paths by their elements\<close>

text \<open>
  An absolute cleaned path is a separator followed by its elements, joined by separators;
  an element is proper when it is not empty, holds no separator and is neither \<open>.\<close>
  nor \<open>..\<close>. \<open>ancestors\<close> follows the spec's words for \<open>locate\<close>: the start
  directory, then every ancestor directory up to and including \<open>/\<close>, nearest first.
\<close>

definition proper :: "string \<Rightarrow> bool" where
  "proper c = (c \<noteq> [] \<and> sep \<notin> set c \<and> c \<noteq> ''.'' \<and> c \<noteq> ''..'')"

definition abs_path :: "string list \<Rightarrow> string" where
  "abs_path cs = sep # join_sep cs"

definition path_elems :: "string \<Rightarrow> string list" where
  "path_elems p = filter (\<lambda>c. c \<noteq> []) (split_sep p)"

definition ancestors :: "string list \<Rightarrow> string list" where
  "ancestors cs = map (\<lambda>k. abs_path (take k cs)) (rev [0..<Suc (length cs)])"

subsection \<open>An instance of the parameters and a small file system, for the examples\<close>

text \<open>
  \<open>toy_Rel\<close> is \<open>filepath.Rel\<close> on two absolute paths: the elements after the common
  prefix, every remaining element of the base replaced by \<open>..\<close>. With one path absolute
  and the other relative \<open>filepath.Rel\<close> fails; the examples never call it on two
  relative paths.
\<close>

fun strip_common :: "string list \<Rightarrow> string list \<Rightarrow> string list \<times> string list" where
  "strip_common (x # xs) (y # ys) =
     (if x = y then strip_common xs ys else (x # xs, y # ys))"
| "strip_common xs ys = (xs, ys)"

definition toy_Rel :: "string \<Rightarrow> string \<Rightarrow> error + string" where
  "toy_Rel base targ =
     (if \<not> IsAbs base \<or> \<not> IsAbs targ then Inl RelError
      else case strip_common (path_elems (Clean base)) (path_elems (Clean targ)) of
             (b, t) \<Rightarrow>
               if b = [] \<and> t = [] then Inr ''.''
               else Inr (join_sep (replicate (length b) ''..'' @ t)))"

text \<open>
  Watch entries are a path and whether it was there; the diff looks at the variable
  \<open>FOO\<close> only; the transport format is one line \<open>KEY=value\<close>; the digest is a
  stand-in (the length of the text); bash at \<open>/bin/bash\<close> prints \<open>FOO=bar\<close>.
\<close>

type_synonym toy_times = "(string \<times> bool) list"

type_synonym toy_diff = "(string \<times> string option) list"

definition toy_Marshal :: "toy_times \<Rightarrow> string" where
  "toy_Marshal t = concat (map (\<lambda>(p, ex). p @ (if ex then ''+'' else ''-'')) t)"

definition toy_Diff :: "Env \<Rightarrow> Env \<Rightarrow> toy_diff" where
  "toy_Diff e1 e2 = (if e1 ''FOO'' = e2 ''FOO'' then [] else [(''FOO'', e2 ''FOO'')])"

definition toy_Serialize :: "toy_diff \<Rightarrow> string" where
  "toy_Serialize d =
     concat (map (\<lambda>(k, v). case v of None \<Rightarrow> ''unset '' @ k
                                  | Some x \<Rightarrow> ''set '' @ k @ ''='' @ x) d)"

definition toy_ToGoEnv :: "Env \<Rightarrow> string list" where
  "toy_ToGoEnv env = (case env ''FOO'' of None \<Rightarrow> [] | Some v \<Rightarrow> [''FOO='' @ v])"

definition toy_LoadEnv :: "string \<Rightarrow> error + Env" where
  "toy_LoadEnv s =
     (let k = takeWhile (\<lambda>c. c \<noteq> CHR ''='') s
      in if length k = length s then Inl (DecodeError s)
         else Inr [k \<mapsto> drop (Suc (length k)) s])"

definition toy_Output :: "filesystem \<Rightarrow> Cmd \<Rightarrow> error + string" where
  "toy_Output fs cmd =
     (if cmd_Path cmd = ''/bin/bash'' then Inr ''FOO=bar''
      else Inl (ExitError ''no such file or directory''))"

definition toy_DetectShell :: "string \<Rightarrow> (Env \<Rightarrow> string) option" where
  "toy_DetectShell target =
     (if target = ''gzenv'' then Some (\<lambda>env. concat (toy_ToGoEnv env))
      else if target = ''bash'' then Some (\<lambda>env. ''export '' @ concat (toy_ToGoEnv env))
      else None)"

definition toy_pkg :: "(toy_times, toy_diff) pkg" where
  "toy_pkg =
     \<lparr>sha256 = (\<lambda>s. of_nat (length s)),
      Rel = toy_Rel,
      NewFileTimes = [],
      Update = (\<lambda>fs p t. t @ [(p, fileExists fs p)]),
      Marshal = toy_Marshal,
      Unmarshal = (\<lambda>s t. t),
      Diff = toy_Diff,
      Serialize = toy_Serialize,
      ToGoEnv = toy_ToGoEnv,
      LoadEnv = toy_LoadEnv,
      Output = toy_Output,
      DetectShell = toy_DetectShell\<rparr>"

text \<open>
  A home directory with a project; no link anywhere, so every path resolves to itself.
\<close>

definition ex_fs :: filesystem where
  "ex_fs =
     \<lparr>getwd = Some ''/home/u/proj/sub'',
      resolve = (\<lambda>p. p),
      inodes = [''/'' \<mapsto> Directory, ''/home'' \<mapsto> Directory, ''/home/u'' \<mapsto> Directory,
                ''/home/u/proj'' \<mapsto> Directory, ''/home/u/proj/sub'' \<mapsto> Directory,
                ''/home/u/proj/.envrc'' \<mapsto> File True True ''export FOO=bar'',
                ''/dev'' \<mapsto> Directory, ''/dev/null'' \<mapsto> File True True []]\<rparr>"

definition ex_cfg :: Config where
  "ex_cfg =
     \<lparr>AllowDir = ''/home/u/.config/direnv/allow'',
      WhitelistExact = (\<lambda>p. False),
      WhitelistPrefix = [],
      WorkDir = ''/home/u/proj/sub'',
      SelfPath = ''/usr/bin/direnv'',
      BashPath = ''/bin/bash'',
      DisableStdin = True\<rparr>"

definition ex_allowPath :: string where
  "ex_allowPath =
     ''/home/u/.config/direnv/allow/'' @ replicate 62 CHR ''0'' @ ''22''"

definition ex_rc :: "toy_times RC" where
  "ex_rc =
     \<lparr>path = ''/home/u/proj/.envrc'',
      allowPath = ex_allowPath,
      times = [(''/home/u/proj/.envrc'', True), (ex_allowPath, False)],
      config = ex_cfg\<rparr>"

text \<open>
  A whitelisted tree \<open>/srv/trusted\<close> in which \<open>proj\<close> is a symbolic link to
  \<open>/tmp/evil\<close>: the paths below the link resolve into \<open>/tmp/evil\<close>.
\<close>

definition sym_fs :: filesystem where
  "sym_fs =
     \<lparr>getwd = Some ''/srv/trusted/proj'',
      resolve = (\<lambda>p. if p = ''/srv/trusted/proj'' \<or> HasPrefix p ''/srv/trusted/proj/''
                      then ''/tmp/evil'' @ drop 17 p else p),
      inodes = [''/'' \<mapsto> Directory, ''/srv'' \<mapsto> Directory, ''/srv/trusted'' \<mapsto> Directory,
                ''/tmp'' \<mapsto> Directory, ''/tmp/evil'' \<mapsto> Directory,
                ''/tmp/evil/.envrc'' \<mapsto> File True True ''export PATH=/tmp/evil''] \<rparr>"

definition sym_cfg :: Config where
  "sym_cfg =
     \<lparr>AllowDir = ''/home/u/.config/direnv/allow'',
      WhitelistExact = (\<lambda>p. False),
      WhitelistPrefix = [''/srv/trusted''],
      WorkDir = ''/srv/trusted/proj'',
      SelfPath = ''/usr/bin/direnv'',
      BashPath = ''/bin/bash'',
      DisableStdin = False\<rparr>"

definition sym_allowPath :: string where
  "sym_allowPath =
     ''/home/u/.config/direnv/allow/'' @ replicate 62 CHR ''0'' @ ''2e''"

definition sym_rc :: "toy_times RC" where
  "sym_rc =
     \<lparr>path = ''/srv/trusted/proj/.envrc'',
      allowPath = sym_allowPath,
      times = [(''/srv/trusted/proj/.envrc'', True), (sym_allowPath, False)],
      config = sym_cfg\<rparr>"

text \<open>
  The same file system after \<open>direnv allow\<close>: the allow directory and the record are
  there. \<open>ex_cmd\<close> is the command that \<open>Load\<close> then runs from \<open>/home/u/proj/sub\<close>
  with a given bash, and \<open>other_bash_cfg\<close> names a bash that is not there.
\<close>

definition ok_fs :: filesystem where
  "ok_fs =
     ex_fs\<lparr>inodes := (inodes ex_fs)
       (''/home/u/.config'' \<mapsto> Directory,
        ''/home/u/.config/direnv'' \<mapsto> Directory,
        ''/home/u/.config/direnv/allow'' \<mapsto> Directory,
        ex_allowPath \<mapsto> File True True (''/home/u/proj/.envrc'' @ [CHR 0x0A]))\<rparr>"

definition ex_cmd :: "string \<Rightarrow> string list \<Rightarrow> Cmd" where
  "ex_cmd bash goenv =
     \<lparr>cmd_Path = bash,
      cmd_Args = [bash, ''--noprofile'', ''--norc'', ''-c'',
                  load_arg ''/usr/bin/direnv'' ''../.envrc''],
      cmd_Stdin = DevNull,
      cmd_Env = goenv,
      cmd_Dir = ''/home/u/proj/sub''\<rparr>"

definition other_bash_cfg :: Config where
  "other_bash_cfg = ex_cfg\<lparr>BashPath := ''/usr/local/bin/bash''\<rparr>"

text \<open>
  The project's \<open>.envrc\<close> made unreadable, and a readable one in the home directory.
\<close>

definition locked_fs :: filesystem where
  "locked_fs =
     ex_fs\<lparr>inodes := (inodes ex_fs)
       (''/home/u/proj/.envrc'' \<mapsto> File False True ''export FOO=bar'',
        ''/home/u/.envrc'' \<mapsto> File True True ''export FOO=home'')\<rparr>"



text \<open>
  An RC whose path is relative, as \<open>RCFromPath\<close> makes it from a relative argument, and
  the example file system with relative paths resolved from the working directory
  \<open>/home/u/proj/sub\<close>; \<open>rel_ok_fs\<close> is that file system after \<open>Allow\<close> on this RC.
\<close>

definition rel_fs :: filesystem where
  "rel_fs =
     ex_fs\<lparr>resolve := (\<lambda>p. if IsAbs p then p else Join [''/home/u/proj/sub'', p])\<rparr>"

definition rel_rc :: "toy_times RC" where
  "rel_rc =
     \<lparr>path = ''../.envrc'',
      allowPath = ex_allowPath,
      times = [(''../.envrc'', True), (ex_allowPath, False)],
      config = ex_cfg\<rparr>"

definition rel_ok_fs :: filesystem where
  "rel_ok_fs =
     rel_fs\<lparr>inodes := (inodes rel_fs)
       (''/home/u/.config'' \<mapsto> Directory,
        ''/home/u/.config/direnv'' \<mapsto> Directory,
        ''/home/u/.config/direnv/allow'' \<mapsto> Directory,
        ex_allowPath \<mapsto> File True True (''../.envrc'' @ [CHR 0x0A]))\<rparr>"

text \<open>
  The parameters with a diff that looks at the diff marker itself, which nothing in the
  two files rules out.
\<close>

definition marker_Diff :: "Env \<Rightarrow> Env \<Rightarrow> toy_diff" where
  "marker_Diff e1 e2 =
     (if e1 DIRENV_DIFF = e2 DIRENV_DIFF then [] else [(DIRENV_DIFF, e2 DIRENV_DIFF)])"

definition marker_pkg :: "(toy_times, toy_diff) pkg" where
  "marker_pkg = toy_pkg\<lparr>Diff := marker_Diff\<rparr>"

section \<open>Properties\<close>

subsection \<open>Lexical path functions\<close>

lemma split_sep_nonempty [simp]: "split_sep s \<noteq> []"
  by (induction s) (auto split: list.splits)

lemma split_sep_no_sep: "c \<in> set (split_sep s) \<Longrightarrow> sep \<notin> set c"
proof (induction s arbitrary: c)
  case Nil
  then show ?case by simp
next
  case (Cons a s)
  have ne: "split_sep s \<noteq> []" by simp
  then obtain x xs where sx: "split_sep s = x # xs" by (cases "split_sep s") auto
  show ?case
  proof (cases "a = sep")
    case True
    with Cons show ?thesis by auto
  next
    case False
    with Cons.prems sx have "c = a # x \<or> c \<in> set xs" by auto
    then show ?thesis using Cons.IH [of x] Cons.IH [of c] sx False by auto
  qed
qed

lemma split_sep_append: "split_sep (a @ sep # b) = split_sep a @ split_sep b"
proof (induction a)
  case Nil
  then show ?case by simp
next
  case (Cons c a)
  obtain x xs where sx: "split_sep a = x # xs" by (cases "split_sep a") auto
  show ?case using Cons sx by simp
qed

lemma split_sep_single: "sep \<notin> set c \<Longrightarrow> split_sep c = [c]"
  by (induction c) (auto split: list.splits)

lemma join_sep_snoc: "join_sep (xs @ [y]) = (if xs = [] then y else join_sep xs @ sep # y)"
  by (induction xs rule: join_sep.induct) auto

lemma split_join:
  "cs \<noteq> [] \<Longrightarrow> \<forall>c \<in> set cs. sep \<notin> set c \<Longrightarrow> split_sep (join_sep cs) = cs"
proof (induction cs rule: join_sep.induct)
  case 1
  then show ?case by simp
next
  case (2 x)
  then show ?case by (simp add: split_sep_single)
next
  case (3 x y ys)
  then show ?case by (simp add: split_sep_append split_sep_single)
qed

lemma clean_step_proper: "proper c \<Longrightarrow> clean_step r out c = out @ [c]"
  by (simp add: clean_step_def proper_def)

lemma foldl_clean_proper:
  "\<forall>c \<in> set cs. proper c \<Longrightarrow> foldl (clean_step r) out cs = out @ cs"
  by (induction cs arbitrary: out) (simp_all add: clean_step_proper)

lemma clean_elems_abs_path:
  assumes "\<forall>c \<in> set cs. proper c"
  shows "clean_elems True (abs_path cs) = cs"
proof (cases "cs = []")
  case True
  then show ?thesis by (simp add: clean_elems_def abs_path_def clean_step_def)
next
  case False
  have "\<forall>c \<in> set cs. sep \<notin> set c" using assms by (simp add: proper_def)
  then have "split_sep (join_sep cs) = cs" using False by (simp add: split_join)
  then show ?thesis using assms
    by (simp add: clean_elems_def abs_path_def foldl_clean_proper clean_step_def)
qed

lemma IsAbs_abs_path [simp]: "IsAbs (abs_path cs)"
  by (simp add: IsAbs_def abs_path_def)

lemma Clean_abs_path: "\<forall>c \<in> set cs. proper c \<Longrightarrow> Clean (abs_path cs) = abs_path cs"
  using clean_elems_abs_path [of cs] IsAbs_abs_path [of cs]
  by (simp add: Clean_def abs_path_def)

lemma clean_step_cases:
  "clean_step r out c = out \<or> clean_step r out c = butlast out
   \<or> (clean_step r out c = out @ [c] \<and> c \<noteq> [] \<and> c \<noteq> ''.'' \<and> (c = ''..'' \<longrightarrow> \<not> r))"
proof (cases "c = [] \<or> c = ''.''")
  case True
  then show ?thesis unfolding clean_step_def by (simp only: if_True simp_thms)
next
  case a: False
  show ?thesis
  proof (cases "c = ''..''")
    case True
    then show ?thesis unfolding clean_step_def using a
      by (cases "out \<noteq> [] \<and> last out \<noteq> ''..''"; cases r) simp_all
  next
    case False
    then show ?thesis unfolding clean_step_def using a by simp
  qed
qed

lemma clean_step_True_proper:
  assumes "\<forall>x \<in> set out. proper x" "sep \<notin> set c"
  shows "\<forall>x \<in> set (clean_step True out c). proper x"
proof -
  consider "clean_step True out c = out" | "clean_step True out c = butlast out"
    | "clean_step True out c = out @ [c]" "c \<noteq> []" "c \<noteq> ''.''" "c \<noteq> ''..''"
    using clean_step_cases [of True out c] by blast
  then show ?thesis
  proof cases
    case 1
    then show ?thesis using assms by simp
  next
    case 2
    then show ?thesis using assms by (metis in_set_butlastD)
  next
    case 3
    then have "proper c" using assms by (simp add: proper_def)
    then show ?thesis using 3 assms by simp
  qed
qed

lemma foldl_clean_True_proper:
  "\<forall>x \<in> set out. proper x \<Longrightarrow> \<forall>c \<in> set fs. sep \<notin> set c
     \<Longrightarrow> \<forall>x \<in> set (foldl (clean_step True) out fs). proper x"
proof (induction fs arbitrary: out)
  case Nil
  then show ?case by simp
next
  case (Cons a fs)
  have a: "sep \<notin> set a" using Cons.prems(2) by simp
  have "\<forall>x \<in> set (clean_step True out a). proper x"
    by (rule clean_step_True_proper [OF Cons.prems(1) a])
  moreover have "\<forall>c \<in> set fs. sep \<notin> set c" using Cons.prems(2) by simp
  ultimately have "\<forall>x \<in> set (foldl (clean_step True) (clean_step True out a) fs). proper x"
    by (rule Cons.IH)
  then show ?case by simp
qed

lemma clean_elems_True_proper: "\<forall>x \<in> set (clean_elems True p). proper x"
  unfolding clean_elems_def
  by (rule foldl_clean_True_proper) (auto dest: split_sep_no_sep)

lemma Clean_rooted: "IsAbs p \<Longrightarrow> Clean p = abs_path (clean_elems True p)"
  by (auto simp: Clean_def abs_path_def IsAbs_def)

lemma clean_step_False_ok:
  assumes "\<forall>x \<in> set out. x \<noteq> [] \<and> sep \<notin> set x" "sep \<notin> set c"
  shows "\<forall>x \<in> set (clean_step False out c). x \<noteq> [] \<and> sep \<notin> set x"
proof -
  consider "clean_step False out c = out" | "clean_step False out c = butlast out"
    | "clean_step False out c = out @ [c]" "c \<noteq> []"
    using clean_step_cases [of False out c] by blast
  then show ?thesis
  proof cases
    case 1
    then show ?thesis using assms by simp
  next
    case 2
    then show ?thesis using assms by (metis in_set_butlastD)
  next
    case 3
    then show ?thesis using assms by simp
  qed
qed

lemma foldl_clean_False_ok:
  "\<forall>x \<in> set out. x \<noteq> [] \<and> sep \<notin> set x \<Longrightarrow> \<forall>c \<in> set fs. sep \<notin> set c
     \<Longrightarrow> \<forall>x \<in> set (foldl (clean_step False) out fs). x \<noteq> [] \<and> sep \<notin> set x"
proof (induction fs arbitrary: out)
  case Nil
  then show ?case by simp
next
  case (Cons a fs)
  have a: "sep \<notin> set a" using Cons.prems(2) by simp
  have "\<forall>x \<in> set (clean_step False out a). x \<noteq> [] \<and> sep \<notin> set x"
    by (rule clean_step_False_ok [OF Cons.prems(1) a])
  moreover have "\<forall>c \<in> set fs. sep \<notin> set c" using Cons.prems(2) by simp
  ultimately have "\<forall>x \<in> set (foldl (clean_step False) (clean_step False out a) fs).
      x \<noteq> [] \<and> sep \<notin> set x"
    by (rule Cons.IH)
  then show ?case by simp
qed

lemma join_sep_hd: "cs \<noteq> [] \<Longrightarrow> hd cs \<noteq> [] \<Longrightarrow> hd (join_sep cs) = hd (hd cs)"
  by (induction cs rule: join_sep.induct) auto

lemma join_sep_Nil_iff: "cs \<noteq> [] \<Longrightarrow> hd cs \<noteq> [] \<Longrightarrow> join_sep cs \<noteq> []"
  by (induction cs rule: join_sep.induct) auto

lemma Clean_IsAbs: "IsAbs (Clean p) = IsAbs p"
proof (cases "IsAbs p")
  case True
  then show ?thesis by (simp add: Clean_rooted)
next
  case False
  have ok: "\<forall>x \<in> set (clean_elems False p). x \<noteq> [] \<and> sep \<notin> set x"
    unfolding clean_elems_def
    by (rule foldl_clean_False_ok) (auto dest: split_sep_no_sep)
  show ?thesis
  proof (cases "clean_elems False p = []")
    case True
    with False show ?thesis by (simp add: Clean_def IsAbs_def sep_def)
  next
    case ne: False
    then obtain x xs where e: "clean_elems False p = x # xs" by (cases "clean_elems False p") auto
    with ok have "x \<noteq> []" "sep \<notin> set x" by auto
    then have "hd x \<noteq> sep" by (cases x) auto
    moreover have "hd (join_sep (x # xs)) = hd x" using \<open>x \<noteq> []\<close> join_sep_hd [of "x # xs"] by simp
    ultimately show ?thesis using False ne e
      by (simp add: Clean_def IsAbs_def sep_def)
  qed
qed

subsection \<open>Load and the recorded state\<close>

lemma keys_distinct [simp]:
  "DIRENV_DIR \<noteq> DIRENV_DIFF" "DIRENV_DIFF \<noteq> DIRENV_DIR"
  "DIRENV_DIR \<noteq> DIRENV_WATCHES" "DIRENV_WATCHES \<noteq> DIRENV_DIR"
  "DIRENV_DIFF \<noteq> DIRENV_WATCHES" "DIRENV_WATCHES \<noteq> DIRENV_DIFF"
  by (simp_all add: DIRENV_DIR_def DIRENV_DIFF_def DIRENV_WATCHES_def)

lemma keys_reserved:
  "reserved DIRENV_DIR" "reserved DIRENV_DIFF" "reserved DIRENV_WATCHES"
  by (simp_all add: reserved_def HasPrefix_def DIRENV_DIR_def DIRENV_DIFF_def DIRENV_WATCHES_def)

lemma RecordState_other:
  "k \<noteq> DIRENV_DIR \<Longrightarrow> k \<noteq> DIRENV_DIFF \<Longrightarrow> RecordState pk rc env newEnv k = newEnv k"
  by (simp add: RecordState_def Let_def)

lemma RecordState_dir:
  "RecordState pk rc env newEnv DIRENV_DIR = Some (''-'' @ Dir (path rc))"
  by (simp add: RecordState_def Let_def)

lemma RecordState_diff:
  "RecordState pk rc env newEnv DIRENV_DIFF =
     Some (Serialize pk (Diff pk env (newEnv(DIRENV_DIR \<mapsto> ''-'' @ Dir (path rc)))))"
  by (simp add: RecordState_def Let_def)

lemma Load_error_cases:
  assumes "Load pk fs rc cfg env = Returns (newEnv, Some e, cmds)"
  shows "newEnv = RecordState pk rc env ((Copy env)(DIRENV_WATCHES \<mapsto> Marshal pk (times rc)))"
  using assms
  by (auto simp: Load_def Let_def split: if_splits outcome.splits sum.splits)

lemma Load_success_cases:
  assumes "Load pk fs rc cfg env = Returns (newEnv, None, cmds)"
  shows "\<exists>cmd out dec. cmds = [cmd] \<and> Allowed fs rc \<and> Output pk fs cmd = Inr out
           \<and> LoadEnv pk out = Inr dec \<and> newEnv = RecordState pk rc env dec"
  using assms
  by (auto simp: Load_def Let_def split: if_splits outcome.splits sum.splits)

lemma Load_not_allowed:
  assumes "\<not> Allowed fs rc"
  shows "Load pk fs rc cfg env =
     (case RelTo pk fs rc (WorkDir cfg) of
        Panics \<Rightarrow> Panics
      | Returns rel \<Rightarrow>
          Returns (RecordState pk rc env ((Copy env)(DIRENV_WATCHES \<mapsto> Marshal pk (times rc))),
                   Some (Errorf (NOT_ALLOWED rel)), []))"
  using assms by (simp add: Load_def Let_def)

lemma Stat_empty: "Stat fs [] = Inl ENOENT"
  by (simp add: Stat_def)

subsection \<open>The examples, evaluated\<close>

lemma toy_pkg_sel [simp]:
  "sha256 toy_pkg = (\<lambda>s. of_nat (length s))"
  "Rel toy_pkg = toy_Rel"
  "NewFileTimes toy_pkg = []"
  "Update toy_pkg = (\<lambda>fs p t. t @ [(p, fileExists fs p)])"
  "Marshal toy_pkg = toy_Marshal"
  "Unmarshal toy_pkg = (\<lambda>s t. t)"
  "Diff toy_pkg = toy_Diff"
  "Serialize toy_pkg = toy_Serialize"
  "ToGoEnv toy_pkg = toy_ToGoEnv"
  "LoadEnv toy_pkg = toy_LoadEnv"
  "Output toy_pkg = toy_Output"
  "DetectShell toy_pkg = toy_DetectShell"
  by (simp_all add: toy_pkg_def)

lemma ex_rc_sel [simp]:
  "path ex_rc = ''/home/u/proj/.envrc''" "allowPath ex_rc = ex_allowPath"
  "times ex_rc = [(''/home/u/proj/.envrc'', True), (ex_allowPath, False)]"
  "config ex_rc = ex_cfg"
  by (simp_all add: ex_rc_def)

lemma ex_cfg_sel [simp]:
  "AllowDir ex_cfg = ''/home/u/.config/direnv/allow''"
  "WhitelistPrefix ex_cfg = []" "WhitelistExact ex_cfg = (\<lambda>p. False)"
  "WorkDir ex_cfg = ''/home/u/proj/sub''" "SelfPath ex_cfg = ''/usr/bin/direnv''"
  "BashPath ex_cfg = ''/bin/bash''" "DisableStdin ex_cfg = True"
  by (simp_all add: ex_cfg_def)

lemma ex_not_Allowed: "\<not> Allowed ex_fs ex_rc"
  by code_simp

lemma ex_RelTo: "RelTo toy_pkg ex_fs ex_rc ''/home/u/proj/sub'' = Returns ''../.envrc''"
  by code_simp

subsection \<open>Descriptors\<close>

lemma NewFile_of_nat:
  assumes "n < 2 ^ 32"
  shows "NewFile (of_nat n) = Some n"
proof -
  have lt: "n < 2 ^ 63" using assms by (rule less_le_trans) simp
  have "n div 2 ^ 63 = 0" using lt by simp
  then have nb: "\<not> bit n 63" by (simp add: bit_iff_odd)
  have "\<not> bit (of_nat n :: 64 word) 63" using nb by (simp add: bit_of_nat_iff)
  then have pos: "\<not> sint (of_nat n :: 64 word) < 0"
    using bit_last_iff [of "of_nat n :: 64 word"] by simp
  have "n < 2 ^ 64" using assms by (rule less_le_trans) simp
  then have "unat (of_nat n :: 64 word) = n" by (simp add: unat_of_nat)
  with pos show ?thesis by (simp add: NewFile_def)
qed

lemma parse_loop_value:
  "parse_loop n s = Inr m \<Longrightarrow> n < 2 ^ 32
     \<Longrightarrow> m = foldl (\<lambda>a c. 10 * a + (of_char c - 48)) n s \<and> m < 2 ^ 32"
proof (induction s arbitrary: n)
  case Nil
  then show ?case by simp
next
  case (Cons c s)
  let ?n1 = "10 * n + (of_char c - 48)"
  have lt: "?n1 < 2 ^ 32" and rest: "parse_loop ?n1 s = Inr m"
    using Cons.prems(1) by (auto split: if_splits)
  show ?case using Cons.IH [OF rest lt] by simp
qed

lemma ParseUint_NewFile:
  assumes "ParseUint s = Inr fd"
  shows "NewFile fd = Some (digits_value s)"
proof -
  obtain n where n: "parse_loop 0 s = Inr n" and fd: "fd = of_nat n"
    using assms by (auto simp: ParseUint_def split: if_splits sum.splits)
  have "n = digits_value s \<and> n < 2 ^ 32"
    using parse_loop_value [OF n] by (simp add: digits_value_def)
  then show ?thesis by (simp add: fd NewFile_of_nat)
qed

lemma ex_ParseUint: "ParseUint ''3'' = Inr 3"
  by (simp add: ParseUint_def is_digit_def digits_value_def)

subsection \<open>Hashing and construction\<close>


lemma RCFromPath_None_iff: "(RCFromPath pk fs p cfg = None) = (\<exists>e. fileHash pk fs p = Inl e)"
  by (auto simp: RCFromPath_def Let_def split: sum.splits)

lemma locked_fileHash: "fileHash toy_pkg locked_fs ''/home/u/proj/.envrc'' = Inl EACCES"
  by code_simp

lemma locked_findUp: "findUp locked_fs ''.'' ''.envrc'' = ''/home/u/proj/.envrc''"
  by code_simp






subsection \<open>Load on the example, after allow\<close>

lemma ok_Allowed: "Allowed ok_fs ex_rc"
  by code_simp

lemma ok_RelTo: "RelTo toy_pkg ok_fs ex_rc ''/home/u/proj/sub'' = Returns ''../.envrc''"
  by code_simp

lemma ok_devnull: "Open ok_fs ''/dev/null'' = Inr (File True True [])"
  by code_simp

lemma other_bash_cfg_sel [simp]:
  "WorkDir other_bash_cfg = ''/home/u/proj/sub''" "SelfPath other_bash_cfg = ''/usr/bin/direnv''"
  "BashPath other_bash_cfg = ''/usr/local/bin/bash''" "DisableStdin other_bash_cfg = True"
  by (simp_all add: other_bash_cfg_def ex_cfg_def)

lemma ok_Load_no_bash:
  "Load toy_pkg ok_fs ex_rc other_bash_cfg env =
     Returns (RecordState toy_pkg ex_rc env (env(DIRENV_WATCHES \<mapsto> toy_Marshal (times ex_rc))),
              Some (ExitError ''no such file or directory''),
              [ex_cmd ''/usr/local/bin/bash''
                 (toy_ToGoEnv (env(DIRENV_WATCHES \<mapsto> toy_Marshal (times ex_rc))))])"
  by (simp add: Load_def Let_def ok_Allowed ok_RelTo ok_devnull Copy_def toy_Output_def ex_cmd_def
      del: ex_rc_sel)

lemma ok_Load:
  "Load toy_pkg ok_fs ex_rc ex_cfg env =
     Returns (RecordState toy_pkg ex_rc env [''FOO'' \<mapsto> ''bar''], None,
              [ex_cmd ''/bin/bash'' (toy_ToGoEnv (env(DIRENV_WATCHES \<mapsto> toy_Marshal (times ex_rc))))])"
  by (simp add: Load_def Let_def ok_Allowed ok_RelTo ok_devnull Copy_def toy_Output_def ex_cmd_def
      toy_LoadEnv_def del: ex_rc_sel)

lemma toy_Diff_ignores_marker: "toy_Diff a (b(DIRENV_DIFF \<mapsto> v)) = toy_Diff a b"
  by (simp add: toy_Diff_def DIRENV_DIFF_def)

lemma ex_Dir: "Dir ''/home/u/proj/.envrc'' = ''/home/u/proj''"
  by code_simp

lemma ex_Marshal:
  "toy_Marshal (times ex_rc) =
     ''/home/u/proj/.envrc+/home/u/.config/direnv/allow/'' @ replicate 62 CHR ''0'' @ ''22-''"
  by (simp add: toy_Marshal_def ex_allowPath_def)

subsection \<open>The trust check\<close>

lemma prefix_loop_iff: "prefix_loop p ps = (\<exists>prefix \<in> set ps. HasPrefix p prefix)"
  by (induction ps) auto

lemma Allowed_iff:
  "Allowed fs rc =
     ((\<exists>n. Stat fs (allowPath rc) = Inr n)
      \<or> (\<exists>p. Abs fs (path rc) = Inr p
            \<and> (WhitelistExact (config rc) p
                \<or> (\<exists>prefix \<in> set (WhitelistPrefix (config rc)). HasPrefix p prefix))))"
  by (auto simp: Allowed_def prefix_loop_iff split: sum.splits)

lemma sym_findUp: "findUp sym_fs ''/srv/trusted/proj'' ''.envrc'' = ''/srv/trusted/proj/.envrc''"
  by code_simp

lemma sym_fileHash:
  "fileHash toy_pkg sym_fs ''/srv/trusted/proj/.envrc'' = Inr (replicate 62 CHR ''0'' @ ''2e'')"
  by code_simp

lemma sym_Join:
  "Join [''/home/u/.config/direnv/allow'', replicate 62 CHR ''0'' @ ''2e''] = sym_allowPath"
  by code_simp

lemma sym_exists:
  "fileExists sym_fs ''/srv/trusted/proj/.envrc''" "\<not> fileExists sym_fs sym_allowPath"
  by code_simp+

lemma sym_cfg_sel [simp]:
  "AllowDir sym_cfg = ''/home/u/.config/direnv/allow''"
  "WhitelistPrefix sym_cfg = [''/srv/trusted'']" "WhitelistExact sym_cfg = (\<lambda>p. False)"
  by (simp_all add: sym_cfg_def)

lemma sym_FindRC: "FindRC toy_pkg sym_fs ''/srv/trusted/proj'' sym_cfg = Some sym_rc"
  using sym_exists
  by (simp add: FindRC_def RCFromPath_def Let_def sym_findUp sym_fileHash sym_Join sym_rc_def)

lemma sym_Stat: "Stat sym_fs sym_allowPath = Inl ENOENT"
  by code_simp

lemma sym_Abs: "Abs sym_fs ''/srv/trusted/proj/.envrc'' = Inr ''/srv/trusted/proj/.envrc''"
  by code_simp

lemma sym_resolve: "resolve sym_fs ''/srv/trusted/proj/.envrc'' = ''/tmp/evil/.envrc''"
  by code_simp

lemma sym_outside: "\<not> prefix_loop ''/tmp/evil/.envrc'' [''/srv/trusted'']"
  by code_simp

lemma sym_Allowed: "Allowed sym_fs sym_rc"
  by code_simp

subsection \<open>Absolute paths, eachDir and findUp\<close>

lemma Clean_nonempty [simp]: "Clean q \<noteq> []"
proof (cases "q = []")
  case True
  then show ?thesis by (simp add: Clean_def)
next
  case False
  show ?thesis
  proof (cases "IsAbs q")
    case True
    then show ?thesis by (simp add: Clean_rooted abs_path_def)
  next
    case na: False
    show ?thesis
    proof (cases "clean_elems False q = []")
      case True
      with False na show ?thesis by (simp add: Clean_def)
    next
      case ne: False
      have ok: "\<forall>x \<in> set (clean_elems False q). x \<noteq> [] \<and> sep \<notin> set x"
        unfolding clean_elems_def
        by (rule foldl_clean_False_ok) (auto dest: split_sep_no_sep)
      then have "hd (clean_elems False q) \<noteq> []" using ne by (cases "clean_elems False q") auto
      then have "join_sep (clean_elems False q) \<noteq> []" using ne by (rule join_sep_Nil_iff [rotated])
      with False na ne show ?thesis by (simp add: Clean_def)
    qed
  qed
qed

lemma Join_cases: "Join es = [] \<or> (\<exists>q. Join es = Clean q)"
proof (cases "dropWhile (\<lambda>e. e = []) es")
  case Nil
  have "Join es = []" unfolding Join_def Nil by simp
  then show ?thesis by simp
next
  case (Cons a list)
  have "Join es = Clean (join_sep (a # list))" unfolding Join_def Cons by simp
  then show ?thesis by blast
qed

lemma abs_form:
  assumes "IsAbs p" and "p = [] \<or> (\<exists>q. p = Clean q)"
  shows "\<exists>cs. (\<forall>c \<in> set cs. proper c) \<and> p = abs_path cs"
proof -
  from assms have "p \<noteq> []" by (auto simp: IsAbs_def)
  with assms(2) obtain q where q: "p = Clean q" by auto
  with assms(1) have "IsAbs q" by (simp add: Clean_IsAbs)
  then have "p = abs_path (clean_elems True q)" using q by (simp add: Clean_rooted)
  then show ?thesis using clean_elems_True_proper [of q] by blast
qed

lemma Abs_form:
  assumes "Abs fs wd = Inr p" and "IsAbs p"
  shows "\<exists>cs. (\<forall>c \<in> set cs. proper c) \<and> p = abs_path cs"
proof (rule abs_form [OF assms(2)])
  show "p = [] \<or> (\<exists>q. p = Clean q)"
  proof (cases "IsAbs wd")
    case True
    with assms(1) show ?thesis by (auto simp: Abs_def)
  next
    case False
    with assms(1) obtain w where "p = Join [w, wd]"
      by (auto simp: Abs_def split: option.splits)
    then show ?thesis using Join_cases [of "[w, wd]"] by simp
  qed
qed

lemma path_elems_abs_path:
  assumes "\<forall>c \<in> set cs. proper c"
  shows "path_elems (abs_path cs) = cs"
proof (cases "cs = []")
  case True
  then show ?thesis by (simp add: path_elems_def abs_path_def)
next
  case False
  have ns: "\<forall>c \<in> set cs. sep \<notin> set c" using assms by (simp add: proper_def)
  have ne: "\<forall>c \<in> set cs. c \<noteq> []" using assms by (simp add: proper_def)
  have "split_sep (join_sep cs) = cs" using False ns by (rule split_join)
  then have "path_elems (abs_path cs) = filter (\<lambda>c. c \<noteq> []) cs"
    by (simp add: path_elems_def abs_path_def)
  also have "\<dots> = cs" using ne by (induction cs) auto
  finally show ?thesis .
qed

lemma ancestors_Nil: "ancestors [] = [sep] # []"
  by (simp add: ancestors_def abs_path_def)

lemma ancestors_snoc: "ancestors (bs @ [c]) = abs_path (bs @ [c]) # ancestors bs"
proof -
  have "map (\<lambda>k. abs_path (take k (bs @ [c]))) (rev [0..<Suc (length bs)])
        = map (\<lambda>k. abs_path (take k bs)) (rev [0..<Suc (length bs)])"
    by (rule map_cong) auto
  then show ?thesis by (simp add: ancestors_def)
qed

lemma eachDir_loop_skip:
  "\<forall>j. i \<le> j \<and> j < i + n \<longrightarrow> p ! j \<noteq> sep
     \<Longrightarrow> eachDir_loop p (i + n) acc = eachDir_loop p i acc"
proof (induction n)
  case 0
  then show ?case by simp
next
  case (Suc n)
  have "p ! (i + n) \<noteq> sep" using Suc.prems by simp
  then have "eachDir_loop p (i + Suc n) acc = eachDir_loop p (i + n) acc" by simp
  also have "\<dots> = eachDir_loop p i acc" using Suc.prems by (intro Suc.IH) simp
  finally show ?case .
qed

lemma eachDir_loop_last_elem:
  assumes "sep \<notin> set c"
  shows "eachDir_loop (s @ sep # c) (length (s @ sep # c)) acc =
           eachDir_loop (if s = [] then [sep] else s) (length s)
             (acc @ [if s = [] then [sep] else s])"
proof -
  let ?p = "s @ sep # c"
  have "\<forall>j. Suc (length s) \<le> j \<and> j < Suc (length s) + length c \<longrightarrow> ?p ! j \<noteq> sep"
  proof (intro allI impI)
    fix j assume j: "Suc (length s) \<le> j \<and> j < Suc (length s) + length c"
    then have "?p ! j = c ! (j - Suc (length s))"
      by (simp add: nth_append nth_Cons')
    moreover have "j - Suc (length s) < length c" using j by arith
    then have "c ! (j - Suc (length s)) \<in> set c" by (rule nth_mem)
    ultimately show "?p ! j \<noteq> sep" using assms by auto
  qed
  then have "eachDir_loop ?p (Suc (length s) + length c) acc = eachDir_loop ?p (Suc (length s)) acc"
    by (rule eachDir_loop_skip)
  moreover have "length ?p = Suc (length s) + length c" by simp
  moreover have "eachDir_loop ?p (Suc (length s)) acc =
           eachDir_loop (if s = [] then [sep] else s) (length s)
             (acc @ [if s = [] then [sep] else s])"
    by (simp add: Let_def)
  ultimately show ?thesis by simp
qed


lemma abs_path_snoc:
  "abs_path (bs @ [c]) = (if bs = [] then sep # c else abs_path bs @ sep # c)"
  by (simp add: abs_path_def join_sep_snoc)

lemma abs_path_nonempty [simp]: "abs_path cs \<noteq> []"
  by (simp add: abs_path_def)

lemma eachDir_loop_abs_path:
  assumes "\<forall>c \<in> set cs. sep \<notin> set c" and "cs \<noteq> []"
  shows "eachDir_loop (abs_path cs) (length (abs_path cs)) acc = acc @ ancestors (butlast cs)"
  using assms
proof (induction cs arbitrary: acc rule: rev_induct)
  case Nil
  then show ?case by simp
next
  case (snoc c bs)
  have c: "sep \<notin> set c" using snoc.prems(1) by simp
  show ?case
  proof (cases "bs = []")
    case True
    have "abs_path (bs @ [c]) = [] @ sep # c" using True by (simp add: abs_path_def)
    then have "eachDir_loop (abs_path (bs @ [c])) (length (abs_path (bs @ [c]))) acc
               = eachDir_loop [sep] (length ([] :: string)) (acc @ [sep] # [])"
      using eachDir_loop_last_elem [OF c, of "[]" acc] by simp
    then show ?thesis using True by (simp add: ancestors_Nil)
  next
    case False
    have bs: "\<forall>c \<in> set bs. sep \<notin> set c" using snoc.prems(1) by simp
    have "abs_path (bs @ [c]) = abs_path bs @ sep # c" using False by (simp add: abs_path_snoc)
    then have "eachDir_loop (abs_path (bs @ [c])) (length (abs_path (bs @ [c]))) acc
               = eachDir_loop (abs_path bs) (length (abs_path bs)) (acc @ [abs_path bs])"
      using eachDir_loop_last_elem [OF c, of "abs_path bs" acc] by simp
    also have "\<dots> = (acc @ [abs_path bs]) @ ancestors (butlast bs)"
      using bs False by (rule snoc.IH)
    also have "\<dots> = acc @ ancestors bs"
    proof -
      obtain bs' b where "bs = bs' @ [b]" using False by (metis rev_exhaust)
      then show ?thesis by (simp add: ancestors_snoc)
    qed
    finally show ?thesis by simp
  qed
qed

lemma abs_path_root_iff:
  assumes "\<forall>c \<in> set cs. c \<noteq> []"
  shows "(abs_path cs = [sep]) = (cs = [])"
proof (cases cs)
  case Nil
  then show ?thesis by (simp add: abs_path_def)
next
  case (Cons a list)
  then have "hd cs \<noteq> []" using assms by simp
  then have "join_sep cs \<noteq> []" using Cons by (intro join_sep_Nil_iff) simp_all
  then show ?thesis using Cons by (simp add: abs_path_def)
qed

lemma eachDir_abs_path:
  assumes "Abs fs wd = Inr (abs_path cs)" and "\<forall>c \<in> set cs. proper c"
  shows "eachDir fs wd = ancestors cs"
proof (cases "cs = []")
  case True
  then show ?thesis using assms(1) by (simp add: eachDir_def abs_path_def ancestors_Nil)
next
  case False
  have ne: "\<forall>c \<in> set cs. c \<noteq> []" and ns: "\<forall>c \<in> set cs. sep \<notin> set c"
    using assms(2) by (simp_all add: proper_def)
  have nr: "abs_path cs \<noteq> [sep]" using abs_path_root_iff [OF ne] False by simp
  obtain bs b where bs: "cs = bs @ [b]" using False by (metis rev_exhaust)
  have "eachDir fs wd = eachDir_loop (abs_path cs) (length (abs_path cs)) [abs_path cs]"
    using assms(1) nr by (simp add: eachDir_def)
  also have "\<dots> = [abs_path cs] @ ancestors (butlast cs)"
    using ns False by (rule eachDir_loop_abs_path)
  also have "\<dots> = ancestors cs" using bs by (simp add: ancestors_snoc)
  finally show ?thesis .
qed

lemma findUp_loop_find:
  "findUp_loop fs ds name =
     (case find (\<lambda>d. fileExists fs (Join [d, name])) ds of
        None \<Rightarrow> []
      | Some d \<Rightarrow> Join [d, name])"
  by (induction ds) auto

lemma Join_abs_path:
  assumes "\<forall>c \<in> set cs. proper c" and "proper name"
  shows "Join [abs_path cs, name] = abs_path (cs @ [name])"
proof -
  have sp: "split_sep (abs_path cs @ sep # name) = split_sep (abs_path cs) @ [name]"
    using assms(2) by (simp add: split_sep_append split_sep_single proper_def)
  have "clean_elems True (abs_path cs @ sep # name)
          = clean_step True (clean_elems True (abs_path cs)) name"
    by (simp add: clean_elems_def sp)
  also have "\<dots> = cs @ [name]"
    using assms by (simp add: clean_elems_abs_path clean_step_proper)
  finally have ce: "clean_elems True (abs_path cs @ sep # name) = cs @ [name]" .
  have "IsAbs (abs_path cs @ sep # name)" by (simp add: IsAbs_def abs_path_def)
  then have "Clean (abs_path cs @ sep # name) = abs_path (cs @ [name])"
    by (simp add: Clean_rooted ce)
  then show ?thesis by (simp add: Join_def)
qed


lemma ancestors_hd_last:
  "hd (ancestors cs) = abs_path cs \<and> last (ancestors cs) = [sep]"
proof (induction cs rule: rev_induct)
  case Nil
  then show ?case by (simp add: ancestors_Nil abs_path_def)
next
  case (snoc c bs)
  have "ancestors bs \<noteq> []" by (simp add: ancestors_def)
  then show ?case using snoc by (simp add: ancestors_snoc)
qed

lemma set_ancestors: "d \<in> set (ancestors cs) \<Longrightarrow> \<exists>k. d = abs_path (take k cs)"
proof -
  assume "d \<in> set (ancestors cs)"
  then obtain k where "d = abs_path (take k cs)"
    unfolding ancestors_def by (auto simp del: upt_Suc)
  then show ?thesis by blast
qed

lemma proper_envrc: "proper ''.envrc''"
  by (simp add: proper_def sep_def)

lemma findUp_no_wd: "Abs fs wd = Inl e \<Longrightarrow> findUp fs wd name = []"
  by (simp add: findUp_def eachDir_def)

lemma ex_Abs_dot: "Abs ex_fs ''.'' = Inr ''/home/u/proj/sub''"
  by code_simp

lemma ex_eachDir_spec:
  "ancestors (path_elems ''/home/u/proj/sub'') =
     [''/home/u/proj/sub'', ''/home/u/proj'', ''/home/u'', ''/home'', ''/'']"
  by code_simp

lemma ex_findUp: "findUp ex_fs ''.'' ''.envrc'' = ''/home/u/proj/.envrc''"
  by code_simp

subsection \<open>Allow records\<close>

lemma Join_clean_dir:
  assumes d: "Clean d = d" and nr: "d \<noteq> ''/''" and nd: "d \<noteq> ''.''" and h: "proper h"
  shows "Join [d, h] = d @ ''/'' @ h"
proof -
  have dne: "d \<noteq> []" using d Clean_nonempty [of d] by auto
  have sp: "split_sep (d @ sep # h) = split_sep d @ [h]"
    using h by (simp add: split_sep_append split_sep_single proper_def)
  have ce: "clean_elems r (d @ sep # h) = clean_elems r d @ [h]" for r
    using h by (simp add: clean_elems_def sp clean_step_proper)
  have ia: "IsAbs (d @ sep # h) = IsAbs d" using dne by (simp add: IsAbs_def)
  have "Clean (d @ sep # h) = d @ sep # h"
  proof (cases "IsAbs d")
    case True
    then have cd: "sep # join_sep (clean_elems True d) = d"
      using d dne by (simp add: Clean_def)
    then have "clean_elems True d \<noteq> []" using nr by (auto simp: sep_def)
    then have "join_sep (clean_elems True d @ [h]) = join_sep (clean_elems True d) @ sep # h"
      by (simp add: join_sep_snoc)
    then have "Clean (d @ sep # h) = (sep # join_sep (clean_elems True d)) @ sep # h"
      using True ia by (simp add: Clean_def ce)
    then show ?thesis by (simp only: cd)
  next
    case False
    have ne: "clean_elems False d \<noteq> []"
    proof
      assume "clean_elems False d = []"
      then have "Clean d = ''.''" using False dne by (simp add: Clean_def)
      then show False using d nd by simp
    qed
    then have cd: "join_sep (clean_elems False d) = d"
      using d dne False by (simp add: Clean_def)
    have "join_sep (clean_elems False d @ [h]) = join_sep (clean_elems False d) @ sep # h"
      using ne by (simp add: join_sep_snoc)
    then have "Clean (d @ sep # h) = join_sep (clean_elems False d) @ sep # h"
      using False ia by (simp add: Clean_def ce)
    then show ?thesis by (simp only: cd)
  qed
  then show ?thesis using dne by (simp add: Join_def sep_def)
qed

lemma hex_digit_in: "hex_digit n \<in> set ''0123456789abcdef''"
proof -
  have "n mod 16 < length ''0123456789abcdef''" by simp
  then show ?thesis unfolding hex_digit_def by (rule nth_mem)
qed

lemma length_hex [simp]: "length (hex w) = 64"
  by (simp add: hex_def)

lemma set_hex: "set (hex w) \<subseteq> set ''0123456789abcdef''"
  unfolding hex_def using hex_digit_in by auto

lemma proper_hex: "proper (hex w)"
proof -
  have "sep \<notin> set ''0123456789abcdef''" by (simp add: sep_def)
  then have "sep \<notin> set (hex w)" using set_hex [of w] by blast
  moreover have "hex w \<noteq> []" "hex w \<noteq> ''.''" "hex w \<noteq> ''..''"
    using length_hex [of w] by (auto simp del: length_hex)
  ultimately show ?thesis by (simp add: proper_def)
qed

lemma WriteFile_Inr:
  assumes "WriteFile fs p d = Inr fs'"
  shows "p \<noteq> [] \<and> (\<exists>r w. fs' = fs\<lparr>inodes := (inodes fs)(resolve fs p \<mapsto> File r w d)\<rparr>)"
proof -
  have ne: "p \<noteq> []" using assms by (auto simp: WriteFile_def split: if_splits)
  then have dir: "inodes fs (Dir (resolve fs p)) = Some Directory"
    using assms by (auto simp: WriteFile_def split: option.splits inode.splits)
  show ?thesis
  proof (cases "inodes fs (resolve fs p)")
    case None
    then have "fs' = fs\<lparr>inodes := (inodes fs)(resolve fs p \<mapsto> File True True d)\<rparr>"
      using assms ne dir by (simp add: WriteFile_def)
    then show ?thesis using ne by blast
  next
    case (Some n)
    show ?thesis
    proof (cases n)
      case Directory
      then show ?thesis using assms ne dir Some by (simp add: WriteFile_def)
    next
      case (File r w x)
      then have "fs' = fs\<lparr>inodes := (inodes fs)(resolve fs p \<mapsto> File r w d)\<rparr>"
        using assms ne dir Some by (simp add: WriteFile_def split: if_splits)
      then show ?thesis using ne by blast
    qed
  qed
qed

lemma WriteFile_Stat:
  assumes "WriteFile fs p d = Inr fs'"
  shows "(\<exists>r w. Stat fs' p = Inr (File r w d)) \<and> resolve fs' = resolve fs \<and> getwd fs' = getwd fs"
proof -
  obtain r w where ne: "p \<noteq> []"
    and fs': "fs' = fs\<lparr>inodes := (inodes fs)(resolve fs p \<mapsto> File r w d)\<rparr>"
    using WriteFile_Inr [OF assms] by blast
  have "Stat fs' p = Inr (File r w d)" using ne by (simp add: fs' Stat_def)
  then show ?thesis by (simp add: fs')
qed

lemma Remove_Inr:
  assumes "Remove fs p = Inr fs'"
  shows "p \<noteq> [] \<and> fs' = fs\<lparr>inodes := (inodes fs)(resolve fs p := None)\<rparr>"
proof (cases "Stat fs p")
  case (Inl e)
  then show ?thesis using assms by (simp add: Remove_def)
next
  case (Inr n)
  then have ne: "p \<noteq> []" by (auto simp: Stat_def split: if_splits)
  show ?thesis
  proof (cases n)
    case Directory
    then show ?thesis using assms Inr ne by (simp add: Remove_def split: if_splits)
  next
    case (File r w x)
    then show ?thesis using assms Inr ne by (simp add: Remove_def)
  qed
qed

lemma Remove_Stat:
  assumes "Remove fs p = Inr fs'"
  shows "Stat fs' p = Inl ENOENT \<and> resolve fs' = resolve fs \<and> getwd fs' = getwd fs"
proof -
  have fs': "fs' = fs\<lparr>inodes := (inodes fs)(resolve fs p := None)\<rparr>"
    using Remove_Inr [OF assms] by simp
  show ?thesis by (simp add: fs' Stat_def)
qed

lemma Remove_file:
  "Stat fs p = Inr (File r w d)
     \<Longrightarrow> Remove fs p = Inr (fs\<lparr>inodes := (inodes fs)(resolve fs p := None)\<rparr>)"
  by (simp add: Remove_def)

lemma Allow_Inr:
  assumes "Allow pk fs rc = Inr (fs', rc')"
  shows "allowPath rc' = allowPath rc \<and> path rc' = path rc \<and> config rc' = config rc
         \<and> (\<exists>fs1. MkdirAll fs (Dir (allowPath rc)) = Inr fs1
                \<and> WriteFile fs1 (allowPath rc) (path rc @ [CHR 0x0A]) = Inr fs')"
  using assms
  by (auto simp: Allow_def allow_def split: if_splits sum.splits)

lemma Abs_unchanged: "getwd fs' = getwd fs \<Longrightarrow> Abs fs' p = Abs fs p"
  by (simp add: Abs_def)


lemma RCFromPath_Some:
  assumes "RCFromPath pk fs p cfg = Some rc"
  shows "path rc = p \<and> config rc = cfg
         \<and> (\<exists>a w contents. Abs fs p = Inr a \<and> Stat fs a = Inr (File True w contents)
               \<and> allowPath rc = Join [AllowDir cfg, hex (sha256 pk (a @ [CHR 0x0A] @ contents))])"
proof -
  obtain h where h: "fileHash pk fs p = Inr h"
    using assms by (auto simp: RCFromPath_def split: sum.splits)
  then have rc: "path rc = p" "config rc = cfg" "allowPath rc = Join [AllowDir cfg, h]"
    using assms by (auto simp: RCFromPath_def Let_def)
  obtain a where a: "Abs fs p = Inr a"
    using h by (auto simp: fileHash_def split: sum.splits)
  obtain fd where fd: "Open fs a = Inr fd"
    using h a by (auto simp: fileHash_def split: sum.splits)
  obtain contents where c: "read_all fd = Inr contents"
    and hh: "h = hex (sha256 pk (a @ [CHR 0x0A] @ contents))"
    using h a fd by (auto simp: fileHash_def split: sum.splits)
  obtain r w where f: "fd = File r w contents"
    using c by (auto simp: read_all_def split: inode.splits)
  have "Stat fs a = Inr (File True w contents)"
    using fd f by (auto simp: Open_def split: sum.splits inode.splits if_splits)
  then show ?thesis using rc a hh by blast
qed

subsection \<open>Allow and deny on the example\<close>

lemma ex_Dir_allow: "Dir ex_allowPath = ''/home/u/.config/direnv/allow''"
  by code_simp

lemma ex_MkdirAll:
  "MkdirAll ex_fs ''/home/u/.config/direnv/allow'' =
     Inr (ex_fs\<lparr>inodes := (inodes ex_fs)
            (''/home/u/.config'' \<mapsto> Directory,
             ''/home/u/.config/direnv'' \<mapsto> Directory,
             ''/home/u/.config/direnv/allow'' \<mapsto> Directory)\<rparr>)"
  by (simp add: MkdirAll.simps mkdir_last_def Mkdir_def Stat_def ex_fs_def Let_def sep_def
      Dir_def Clean_def IsAbs_def clean_elems_def clean_step_def)

lemma ex_allowPath_fresh:
  "ex_allowPath \<noteq> ''/home/u/.config''" "ex_allowPath \<noteq> ''/home/u/.config/direnv''"
  "ex_allowPath \<noteq> ''/home/u/.config/direnv/allow''" "ex_allowPath \<noteq> []"
  "inodes ex_fs ex_allowPath = None"
  by code_simp+

lemma ex_allow:
  "allow (ex_fs\<lparr>inodes := (inodes ex_fs)
            (''/home/u/.config'' \<mapsto> Directory,
             ''/home/u/.config/direnv'' \<mapsto> Directory,
             ''/home/u/.config/direnv/allow'' \<mapsto> Directory)\<rparr>)
     ''/home/u/proj/.envrc'' ex_allowPath = Inr ok_fs"
proof -
  have r: "resolve ex_fs = (\<lambda>p. p)" by (simp add: ex_fs_def)
  show ?thesis
    by (simp add: allow_def WriteFile_def r ex_allowPath_fresh ex_Dir_allow ok_fs_def)
qed

lemma ok_exists: "fileExists ok_fs ex_allowPath"
  by code_simp

lemma ex_Allow:
  "Allow toy_pkg ex_fs ex_rc =
     Inr (ok_fs, ex_rc\<lparr>times := times ex_rc @ [(ex_allowPath, True)]\<rparr>)"
proof -
  show ?thesis
    using ok_exists
    by (simp add: Allow_def ex_allowPath_fresh ex_Dir_allow ex_MkdirAll ex_allow)
qed

lemma ex_fileHash:
  "fileHash toy_pkg ex_fs ''/home/u/proj/.envrc'' = Inr (replicate 62 CHR ''0'' @ ''22'')"
  by code_simp

lemma ex_Join:
  "Join [''/home/u/.config/direnv/allow'', replicate 62 CHR ''0'' @ ''22''] = ex_allowPath"
  by code_simp

lemma ex_exists:
  "fileExists ex_fs ''/home/u/proj/.envrc''" "\<not> fileExists ex_fs ex_allowPath"
  by code_simp+

lemma ex_RCFromPath: "RCFromPath toy_pkg ex_fs ''/home/u/proj/.envrc'' ex_cfg = Some ex_rc"
  using ex_exists
  by (simp add: RCFromPath_def Let_def ex_fileHash ex_Join ex_rc_def)

lemma ex_Abs: "Abs ex_fs ''/home/u/proj/.envrc'' = Inr ''/home/u/proj/.envrc''"
  by code_simp

lemma ex_AllowDir_clean: "Clean ''/home/u/.config/direnv/allow'' = ''/home/u/.config/direnv/allow''"
  by code_simp

lemma ok_Stat:
  "Stat ok_fs ex_allowPath = Inr (File True True (''/home/u/proj/.envrc'' @ [CHR 0x0A]))"
  by code_simp

lemma ex_Stat: "Stat ex_fs ''/home/u/proj/.envrc'' = Inr (File True True ''export FOO=bar'')"
  by code_simp

lemma ex_hex:
  "hex (sha256 toy_pkg (''/home/u/proj/.envrc'' @ [CHR 0x0A] @ ''export FOO=bar''))
     = replicate 62 CHR ''0'' @ ''22''"
  by code_simp

lemma ok_Remove:
  "Deny ok_fs (ex_rc\<lparr>times := times ex_rc @ [(ex_allowPath, True)]\<rparr>) =
     Inr (ok_fs\<lparr>inodes := (inodes ok_fs)(ex_allowPath := None)\<rparr>)"
proof -
  have r: "resolve ok_fs = (\<lambda>p. p)" by (simp add: ok_fs_def ex_fs_def)
  show ?thesis using Remove_file [OF ok_Stat] by (simp add: Deny_def r)
qed

lemma FindRC_path_absolute:
  assumes "FindRC pk fs wd cfg = Some rc" and "Abs fs wd = Inr p0" and "IsAbs p0"
  shows "Abs fs (path rc) = Inr (path rc)"
proof -
  obtain cs where cs: "\<forall>c \<in> set cs. proper c" and p0: "p0 = abs_path cs"
    using Abs_form [OF assms(2,3)] by blast
  have e: "eachDir fs wd = ancestors cs"
    using assms(2) cs unfolding p0 by (rule eachDir_abs_path)
  let ?found = "find (\<lambda>d. fileExists fs (Join [d, ''.envrc''])) (ancestors cs)"
  have f: "findUp fs wd ''.envrc'' = (case ?found of None \<Rightarrow> [] | Some d \<Rightarrow> Join [d, ''.envrc''])"
    by (simp add: findUp_def e findUp_loop_find)
  have ne: "findUp fs wd ''.envrc'' \<noteq> []"
    and rc: "RCFromPath pk fs (findUp fs wd ''.envrc'') cfg = Some rc"
    using assms(1) by (auto simp: FindRC_def Let_def split: if_splits)
  then obtain d where d: "?found = Some d" using f by (cases ?found) auto
  then obtain k where k: "d = abs_path (take k cs)"
    using set_ancestors [of d cs] by (auto simp: find_Some_iff)
  have pk: "\<forall>c \<in> set (take k cs). proper c" using cs by (auto dest: in_set_takeD)
  have "findUp fs wd ''.envrc'' = abs_path (take k cs @ [''.envrc''])"
    using f d k Join_abs_path [OF pk proper_envrc] by simp
  moreover have "path rc = findUp fs wd ''.envrc''"
    using RCFromPath_Some [OF rc] by simp
  ultimately have pr: "path rc = abs_path (take k cs @ [''.envrc''])" by simp
  have "\<forall>c \<in> set (take k cs @ [''.envrc'']). proper c" using pk proper_envrc by simp
  then have "Clean (path rc) = path rc" unfolding pr by (rule Clean_abs_path)
  moreover have "IsAbs (path rc)" by (simp add: pr)
  ultimately show ?thesis by (simp add: Abs_def)
qed

subsection \<open>Further examples: a relative path, an unreadable file, a diff that reads its marker\<close>

lemma marker_pkg_sel [simp]:
  "Marshal marker_pkg = toy_Marshal" "Diff marker_pkg = marker_Diff"
  "Serialize marker_pkg = toy_Serialize" "ToGoEnv marker_pkg = toy_ToGoEnv"
  "LoadEnv marker_pkg = toy_LoadEnv" "Output marker_pkg = toy_Output"
  by (simp_all add: marker_pkg_def toy_pkg_def)

lemma marker_RelTo: "RelTo marker_pkg ok_fs ex_rc ''/home/u/proj/sub'' = Returns ''../.envrc''"
  by code_simp

lemma marker_Load:
  "Load marker_pkg ok_fs ex_rc ex_cfg env =
     Returns (RecordState marker_pkg ex_rc env [''FOO'' \<mapsto> ''bar''], None,
              [ex_cmd ''/bin/bash'' (toy_ToGoEnv (env(DIRENV_WATCHES \<mapsto> toy_Marshal (times ex_rc))))])"
  by (simp add: Load_def Let_def ok_Allowed marker_RelTo ok_devnull Copy_def toy_Output_def
      ex_cmd_def toy_LoadEnv_def del: ex_rc_sel)

lemma marker_recorded:
  "RecordState marker_pkg ex_rc Map.empty [''FOO'' \<mapsto> ''bar''] DIRENV_DIFF = Some []"
  by (subst RecordState_diff)
    (simp add: marker_Diff_def toy_Serialize_def DIRENV_DIFF_def DIRENV_DIR_def)

lemma marker_rediffed:
  "Serialize marker_pkg (Diff marker_pkg Map.empty
      (RecordState marker_pkg ex_rc Map.empty [''FOO'' \<mapsto> ''bar'']))
   = ''set DIRENV_DIFF=''"
proof -
  have "marker_Diff Map.empty (RecordState marker_pkg ex_rc Map.empty [''FOO'' \<mapsto> ''bar''])
        = [(DIRENV_DIFF, Some [])]"
    by (simp add: marker_Diff_def marker_recorded)
  then show ?thesis by (simp add: toy_Serialize_def DIRENV_DIFF_def)
qed

lemma rel_fileHash:
  "fileHash toy_pkg rel_fs ''../.envrc'' = Inr (replicate 62 CHR ''0'' @ ''22'')"
  by code_simp

lemma rel_exists:
  "fileExists rel_fs ''../.envrc''" "\<not> fileExists rel_fs ex_allowPath"
  by code_simp+

lemma rel_RCFromPath: "RCFromPath toy_pkg rel_fs ''../.envrc'' ex_cfg = Some rel_rc"
  using rel_exists
  by (simp add: RCFromPath_def Let_def rel_fileHash ex_Join rel_rc_def)

lemma rel_Abs: "Abs rel_fs ''../.envrc'' = Inr ''/home/u/proj/.envrc''"
  by code_simp

lemma rel_resolve:
  "resolve rel_fs ''/home/u/.config/direnv/allow'' = ''/home/u/.config/direnv/allow''"
  "resolve rel_fs ''/home/u/.config/direnv'' = ''/home/u/.config/direnv''"
  "resolve rel_fs ''/home/u/.config'' = ''/home/u/.config''"
  "resolve rel_fs ''/home/u'' = ''/home/u''"
  "resolve rel_fs ex_allowPath = ex_allowPath"
  by code_simp+

lemma rel_inodes: "inodes rel_fs = inodes ex_fs"
  by (simp add: rel_fs_def)

lemma rel_MkdirAll:
  "MkdirAll rel_fs ''/home/u/.config/direnv/allow'' =
     Inr (rel_fs\<lparr>inodes := (inodes rel_fs)
            (''/home/u/.config'' \<mapsto> Directory,
             ''/home/u/.config/direnv'' \<mapsto> Directory,
             ''/home/u/.config/direnv/allow'' \<mapsto> Directory)\<rparr>)"
proof -
  have r [simp]: "resolve (rel_fs\<lparr>inodes := m\<rparr>) = resolve rel_fs" for m by simp
  show ?thesis
    by (simp add: MkdirAll.simps mkdir_last_def Mkdir_def Stat_def rel_resolve rel_inodes
        ex_fs_def Let_def sep_def Dir_def Clean_def IsAbs_def clean_elems_def clean_step_def)
qed

lemma rel_allow:
  "allow (rel_fs\<lparr>inodes := (inodes rel_fs)
            (''/home/u/.config'' \<mapsto> Directory,
             ''/home/u/.config/direnv'' \<mapsto> Directory,
             ''/home/u/.config/direnv/allow'' \<mapsto> Directory)\<rparr>)
     ''../.envrc'' ex_allowPath = Inr rel_ok_fs"
  by (simp add: allow_def WriteFile_def rel_resolve rel_inodes ex_allowPath_fresh ex_Dir_allow
      rel_ok_fs_def)

lemma rel_ok_exists: "fileExists rel_ok_fs ex_allowPath"
  by code_simp

lemma rel_rc_sel [simp]:
  "path rel_rc = ''../.envrc''" "allowPath rel_rc = ex_allowPath"
  "times rel_rc = [(''../.envrc'', True), (ex_allowPath, False)]"
  by (simp_all add: rel_rc_def)

lemma rel_Allow:
  "Allow toy_pkg rel_fs rel_rc =
     Inr (rel_ok_fs, rel_rc\<lparr>times := times rel_rc @ [(ex_allowPath, True)]\<rparr>)"
  using rel_ok_exists
  by (simp add: Allow_def ex_allowPath_fresh ex_Dir_allow rel_MkdirAll rel_allow)

lemma rel_ok_Stat:
  "Stat rel_ok_fs ex_allowPath = Inr (File True True (''../.envrc'' @ [CHR 0x0A]))"
  by code_simp

lemma rel_not_Allowed: "\<not> Allowed ex_fs rel_rc" "\<not> Allowed (ex_fs\<lparr>getwd := None\<rparr>) rel_rc"
  by code_simp+

lemma rel_RelTo:
  "RelTo toy_pkg ex_fs rel_rc ''/home/u/proj/sub'' = Panics"
  "RelTo toy_pkg (ex_fs\<lparr>getwd := None\<rparr>) rel_rc ''/home/u/proj/sub'' = Panics"
  by code_simp+

lemma rel_Rel:
  "rootDir ex_fs ''/home/u/proj/sub'' = Returns ''/home''"
  "rootDir ex_fs (path rel_rc) = Returns ''/home''"
  "Rel toy_pkg ''/home/u/proj/sub'' (path rel_rc) = Inl RelError"
  "Abs (ex_fs\<lparr>getwd := None\<rparr>) (path rel_rc) = Inl GetwdError"
  by code_simp+

lemma ex_FindRC: "FindRC toy_pkg ex_fs ''.'' ex_cfg = Some ex_rc"
  by (simp add: FindRC_def Let_def ex_findUp ex_RCFromPath)

lemma ex_found:
  "\<not> fileExists ex_fs ''/home/u/proj/sub/.envrc''" "fileExists ex_fs ''/home/u/proj/.envrc''"
  by code_simp+

lemma locked_eachDir:
  "eachDir locked_fs ''.'' = [''/home/u/proj/sub'', ''/home/u/proj'', ''/home/u'', ''/home'', ''/'']"
  by code_simp

lemma locked_found:
  "\<not> fileExists locked_fs ''/home/u/proj/sub/.envrc''" "fileExists locked_fs ''/home/u/proj/.envrc''"
  "fileExists locked_fs ''/home/u/.envrc''"
  by code_simp+

lemma locked_FindRC: "FindRC toy_pkg locked_fs ''.'' ex_cfg = None"
  by (simp add: FindRC_def Let_def locked_findUp RCFromPath_def locked_fileHash)

section \<open>The claims\<close>

text \<open>
  Claim C1, evaluated where it fails. \<open>/srv/trusted\<close> is a whitelisted prefix and
  \<open>/srv/trusted/proj\<close> a symbolic link to \<open>/tmp/evil\<close>. \<open>FindRC\<close> from inside the
  link finds \<open>/srv/trusted/proj/.envrc\<close>; there is no allow record; the file that path
  resolves to, \<open>/tmp/evil/.envrc\<close>, is no exact entry and has no whitelisted prefix.
  \<open>filepath.Abs\<close> is lexical, so \<open>Allowed\<close> compares the unresolved path and returns
  true.
\<close>

theorem Allowed_follows_no_symlink:
  "FindRC toy_pkg sym_fs ''/srv/trusted/proj'' sym_cfg = Some sym_rc
   \<and> Stat sym_fs (allowPath sym_rc) = Inl ENOENT
   \<and> resolve sym_fs (path sym_rc) = ''/tmp/evil/.envrc''
   \<and> \<not> WhitelistExact (config sym_rc) ''/tmp/evil/.envrc''
   \<and> \<not> prefix_loop ''/tmp/evil/.envrc'' (WhitelistPrefix (config sym_rc))
   \<and> Abs sym_fs (path sym_rc) = Inr ''/srv/trusted/proj/.envrc''
   \<and> Allowed sym_fs sym_rc"
  using sym_FindRC sym_Stat sym_resolve sym_outside sym_Abs sym_Allowed
  by (simp add: sym_rc_def)

text \<open>
  Claim C2. Whenever \<open>Load\<close> returns an error (blocked, standard input not opened,
  subprocess failed, output not decoded), the environment it returns agrees with the
  starting one on every key that does not begin with the reserved prefix. When it returns
  without an error, the subprocess ran and its output was decoded, and the returned
  environment is the decoded one, with the directory and diff markers written over it.
\<close>

theorem Load_error_keeps_env:
  assumes "Load pk fs rc cfg env = Returns (newEnv, err, cmds)"
  shows "case err of
           Some e \<Rightarrow> (\<forall>k. \<not> reserved k \<longrightarrow> newEnv k = env k)
         | None \<Rightarrow>
             (\<exists>cmd out dec. cmds = [cmd] \<and> Output pk fs cmd = Inr out
                \<and> LoadEnv pk out = Inr dec
                \<and> (\<forall>k. \<not> reserved k \<longrightarrow> newEnv k = dec k))"
proof (cases err)
  case None
  with assms obtain cmd out dec where d: "cmds = [cmd]" "Output pk fs cmd = Inr out"
    "LoadEnv pk out = Inr dec" "newEnv = RecordState pk rc env dec"
    using Load_success_cases by blast
  have "newEnv k = dec k" if "\<not> reserved k" for k
  proof -
    have "k \<noteq> DIRENV_DIR" "k \<noteq> DIRENV_DIFF" using that keys_reserved by auto
    then show ?thesis by (simp add: d(4) RecordState_other)
  qed
  with d None show ?thesis by auto
next
  case (Some e)
  with assms have eq: "newEnv = RecordState pk rc env
      ((Copy env)(DIRENV_WATCHES \<mapsto> Marshal pk (times rc)))"
    using Load_error_cases by blast
  have "newEnv k = env k" if "\<not> reserved k" for k
  proof -
    have "k \<noteq> DIRENV_DIR" "k \<noteq> DIRENV_DIFF" "k \<noteq> DIRENV_WATCHES"
      using that keys_reserved by auto
    then show ?thesis by (simp add: eq RecordState_other Copy_def)
  qed
  with Some show ?thesis by simp
qed

theorem Load_error_keeps_env_witness:
  "Load toy_pkg ok_fs ex_rc other_bash_cfg [''FOO'' \<mapsto> ''old''] =
     Returns (RecordState toy_pkg ex_rc [''FOO'' \<mapsto> ''old'']
                ([''FOO'' \<mapsto> ''old''](DIRENV_WATCHES \<mapsto> toy_Marshal (times ex_rc))),
              Some (ExitError ''no such file or directory''),
              [ex_cmd ''/usr/local/bin/bash''
                 (toy_ToGoEnv ([''FOO'' \<mapsto> ''old''](DIRENV_WATCHES \<mapsto> toy_Marshal (times ex_rc))))])
   \<and> \<not> reserved ''FOO''
   \<and> RecordState toy_pkg ex_rc [''FOO'' \<mapsto> ''old'']
         ([''FOO'' \<mapsto> ''old''](DIRENV_WATCHES \<mapsto> toy_Marshal (times ex_rc))) ''FOO'' = Some ''old''
   \<and> Load toy_pkg ok_fs ex_rc ex_cfg [''FOO'' \<mapsto> ''old''] =
     Returns (RecordState toy_pkg ex_rc [''FOO'' \<mapsto> ''old''] [''FOO'' \<mapsto> ''bar''], None,
              [ex_cmd ''/bin/bash''
                 (toy_ToGoEnv ([''FOO'' \<mapsto> ''old''](DIRENV_WATCHES \<mapsto> toy_Marshal (times ex_rc))))])
   \<and> RecordState toy_pkg ex_rc [''FOO'' \<mapsto> ''old''] [''FOO'' \<mapsto> ''bar''] ''FOO'' = Some ''bar''"
proof -
  have nr: "\<not> reserved ''FOO''" by (simp add: reserved_def HasPrefix_def)
  have e: "RecordState toy_pkg ex_rc [''FOO'' \<mapsto> ''old'']
         ([''FOO'' \<mapsto> ''old''](DIRENV_WATCHES \<mapsto> toy_Marshal (times ex_rc))) ''FOO'' = Some ''old''"
    using Load_error_keeps_env [OF ok_Load_no_bash [of "[''FOO'' \<mapsto> ''old'']"]] nr
    by simp
  have s: "RecordState toy_pkg ex_rc [''FOO'' \<mapsto> ''old''] [''FOO'' \<mapsto> ''bar''] ''FOO'' = Some ''bar''"
    using Load_error_keeps_env [OF ok_Load [of "[''FOO'' \<mapsto> ''old'']"]] nr
    by (auto simp: toy_LoadEnv_def toy_Output_def ex_cmd_def)
  show ?thesis
    using nr e s ok_Load_no_bash [of "[''FOO'' \<mapsto> ''old'']"] ok_Load [of "[''FOO'' \<mapsto> ''old'']"]
    by simp
qed

text \<open>
  Claim C3, as amended. Every return of \<open>Load\<close>, with or without an error, is
  \<open>RecordState\<close> applied to one environment \<open>x\<close>: on an error, the copy of the
  starting environment with the watch key set to the marshalled watch set; on success, the
  decoded output of the subprocess. The returned environment is \<open>x\<close> with the directory
  marker set to \<open>"-"\<close> followed by the directory of the configuration file, and then the
  diff marker set to the serialization of \<open>env.Diff\<close> of \<open>x\<close> with that directory
  marker. So the watch key of the result is the one of \<open>x\<close>: the marshalled watch set on
  every error return, and whatever the decoded output holds on success. The diff marker is
  the serialization of \<open>env.Diff\<close> of the returned environment itself whenever \<open>Diff\<close>
  does not look at the diff marker.
\<close>

theorem Load_records_state:
  assumes "Load pk fs rc cfg env = Returns (newEnv, err, cmds)"
  shows "\<exists>x. (case err of
               Some e \<Rightarrow> x = (Copy env)(DIRENV_WATCHES \<mapsto> Marshal pk (times rc))
             | None \<Rightarrow> (\<exists>cmd out. cmds = [cmd] \<and> Output pk fs cmd = Inr out
                           \<and> LoadEnv pk out = Inr x))
          \<and> newEnv = (x(DIRENV_DIR \<mapsto> ''-'' @ Dir (path rc)))
                 (DIRENV_DIFF \<mapsto>
                    Serialize pk (Diff pk env (x(DIRENV_DIR \<mapsto> ''-'' @ Dir (path rc)))))
          \<and> newEnv DIRENV_DIR = Some (''-'' @ Dir (path rc))
          \<and> newEnv DIRENV_DIFF =
                Some (Serialize pk (Diff pk env (x(DIRENV_DIR \<mapsto> ''-'' @ Dir (path rc)))))
          \<and> newEnv DIRENV_WATCHES = x DIRENV_WATCHES
          \<and> ((\<forall>a b v. Diff pk a (b(DIRENV_DIFF \<mapsto> v)) = Diff pk a b) \<longrightarrow>
                newEnv DIRENV_DIFF = Some (Serialize pk (Diff pk env newEnv)))"
proof -
  obtain x where x: "newEnv = RecordState pk rc env x"
    and w: "case err of
              Some e \<Rightarrow> x = (Copy env)(DIRENV_WATCHES \<mapsto> Marshal pk (times rc))
            | None \<Rightarrow> (\<exists>cmd out. cmds = [cmd] \<and> Output pk fs cmd = Inr out
                          \<and> LoadEnv pk out = Inr x)"
  proof (cases err)
    case None
    with assms obtain cmd out dec where "cmds = [cmd]" "Output pk fs cmd = Inr out"
      "LoadEnv pk out = Inr dec" "newEnv = RecordState pk rc env dec"
      using Load_success_cases by blast
    with None that show ?thesis by auto
  next
    case (Some e)
    with assms have "newEnv = RecordState pk rc env
        ((Copy env)(DIRENV_WATCHES \<mapsto> Marshal pk (times rc)))"
      using Load_error_cases by blast
    with Some that show ?thesis by auto
  qed
  let ?pre = "x(DIRENV_DIR \<mapsto> ''-'' @ Dir (path rc))"
  have eq: "newEnv = ?pre(DIRENV_DIFF \<mapsto> Serialize pk (Diff pk env ?pre))"
    by (simp add: x RecordState_def Let_def)
  have c1: "newEnv DIRENV_DIR = Some (''-'' @ Dir (path rc))"
    by (simp add: x RecordState_dir)
  have c2: "newEnv DIRENV_DIFF = Some (Serialize pk (Diff pk env ?pre))"
    by (simp add: x RecordState_diff)
  have c3: "newEnv DIRENV_DIFF = Some (Serialize pk (Diff pk env newEnv))"
    if ign: "\<forall>a b v. Diff pk a (b(DIRENV_DIFF \<mapsto> v)) = Diff pk a b"
  proof -
    have "Diff pk env newEnv = Diff pk env ?pre"
      by (subst eq) (simp only: ign)
    then show ?thesis using c2 by simp
  qed
  have wk: "newEnv DIRENV_WATCHES = x DIRENV_WATCHES"
    by (simp add: x RecordState_other)
  from w eq c1 c2 c3 wk show ?thesis by blast
qed

theorem Load_records_state_witness:
  "Load toy_pkg ok_fs ex_rc ex_cfg [''FOO'' \<mapsto> ''old''] =
     Returns (RecordState toy_pkg ex_rc [''FOO'' \<mapsto> ''old''] [''FOO'' \<mapsto> ''bar''], None,
              [ex_cmd ''/bin/bash'' (toy_ToGoEnv ([''FOO'' \<mapsto> ''old''](DIRENV_WATCHES \<mapsto> toy_Marshal (times ex_rc))))])
   \<and> (\<forall>a b v. Diff toy_pkg a (b(DIRENV_DIFF \<mapsto> v)) = Diff toy_pkg a b)
   \<and> RecordState toy_pkg ex_rc [''FOO'' \<mapsto> ''old''] [''FOO'' \<mapsto> ''bar''] DIRENV_DIR
       = Some ''-/home/u/proj''
   \<and> RecordState toy_pkg ex_rc [''FOO'' \<mapsto> ''old''] [''FOO'' \<mapsto> ''bar''] DIRENV_DIFF
       = Some (Serialize toy_pkg (Diff toy_pkg [''FOO'' \<mapsto> ''old'']
                 (RecordState toy_pkg ex_rc [''FOO'' \<mapsto> ''old''] [''FOO'' \<mapsto> ''bar''])))
   \<and> RecordState toy_pkg ex_rc [''FOO'' \<mapsto> ''old''] [''FOO'' \<mapsto> ''bar''] DIRENV_DIFF
       = Some ''set FOO=bar''"
proof -
  have ign: "\<forall>a b v. Diff toy_pkg a (b(DIRENV_DIFF \<mapsto> v)) = Diff toy_pkg a b"
    by (simp add: toy_Diff_ignores_marker)
  have d: "RecordState toy_pkg ex_rc [''FOO'' \<mapsto> ''old''] [''FOO'' \<mapsto> ''bar''] DIRENV_DIFF
       = Some ''set FOO=bar''"
    by (simp add: RecordState_diff toy_Diff_def toy_Serialize_def DIRENV_DIR_def)
  have r: "RecordState toy_pkg ex_rc [''FOO'' \<mapsto> ''old''] [''FOO'' \<mapsto> ''bar''] DIRENV_DIFF
       = Some (Serialize toy_pkg (Diff toy_pkg [''FOO'' \<mapsto> ''old'']
                 (RecordState toy_pkg ex_rc [''FOO'' \<mapsto> ''old''] [''FOO'' \<mapsto> ''bar''])))"
    using Load_records_state [OF ok_Load [of "[''FOO'' \<mapsto> ''old'']"]] ign by blast
  have dir: "RecordState toy_pkg ex_rc [''FOO'' \<mapsto> ''old''] [''FOO'' \<mapsto> ''bar''] DIRENV_DIR
       = Some ''-/home/u/proj''"
    by (simp add: RecordState_dir ex_Dir)
  from ok_Load [of "[''FOO'' \<mapsto> ''old'']"] ign dir r d show ?thesis by blast
qed

text \<open>
  The claim as stated fails twice. On the success path the returned environment is the
  decoded output of the subprocess, and here that output does not carry the watch key (a
  configuration file can unset or rewrite it), so the key is absent from what \<open>Load\<close>
  returns although the watch set marshals to a non-empty string. And the diff is taken
  before the diff marker is written: with a \<open>Diff\<close> that looks at the marker, the
  recorded value (the empty diff) is not the serialization of \<open>env.Diff\<close> of the
  returned environment (which sets the marker).
\<close>

theorem Load_watch_key_counterexample:
  "Load toy_pkg ok_fs ex_rc ex_cfg Map.empty =
     Returns (RecordState toy_pkg ex_rc Map.empty [''FOO'' \<mapsto> ''bar''], None,
              [ex_cmd ''/bin/bash'' (toy_ToGoEnv (Map.empty(DIRENV_WATCHES \<mapsto> toy_Marshal (times ex_rc))))])
   \<and> RecordState toy_pkg ex_rc Map.empty [''FOO'' \<mapsto> ''bar''] DIRENV_WATCHES = None
   \<and> Marshal toy_pkg (times ex_rc) =
       ''/home/u/proj/.envrc+/home/u/.config/direnv/allow/'' @ replicate 62 CHR ''0'' @ ''22-''
   \<and> RecordState toy_pkg ex_rc Map.empty [''FOO'' \<mapsto> ''bar''] DIRENV_WATCHES
       \<noteq> Some (Marshal toy_pkg (times ex_rc))
   \<and> Load marker_pkg ok_fs ex_rc ex_cfg Map.empty =
     Returns (RecordState marker_pkg ex_rc Map.empty [''FOO'' \<mapsto> ''bar''], None,
              [ex_cmd ''/bin/bash'' (toy_ToGoEnv (Map.empty(DIRENV_WATCHES \<mapsto> toy_Marshal (times ex_rc))))])
   \<and> RecordState marker_pkg ex_rc Map.empty [''FOO'' \<mapsto> ''bar''] DIRENV_DIFF = Some []
   \<and> Serialize marker_pkg (Diff marker_pkg Map.empty
         (RecordState marker_pkg ex_rc Map.empty [''FOO'' \<mapsto> ''bar'']))
       = ''set DIRENV_DIFF=''
   \<and> RecordState marker_pkg ex_rc Map.empty [''FOO'' \<mapsto> ''bar''] DIRENV_DIFF
       \<noteq> Some (Serialize marker_pkg (Diff marker_pkg Map.empty
                 (RecordState marker_pkg ex_rc Map.empty [''FOO'' \<mapsto> ''bar''])))"
proof (intro conjI)
  show "Load toy_pkg ok_fs ex_rc ex_cfg Map.empty =
     Returns (RecordState toy_pkg ex_rc Map.empty [''FOO'' \<mapsto> ''bar''], None,
              [ex_cmd ''/bin/bash'' (toy_ToGoEnv (Map.empty(DIRENV_WATCHES \<mapsto> toy_Marshal (times ex_rc))))])"
    by (rule ok_Load)
  have "[''FOO'' \<mapsto> ''bar''] DIRENV_WATCHES = None"
    by (simp add: DIRENV_WATCHES_def)
  then show n: "RecordState toy_pkg ex_rc Map.empty [''FOO'' \<mapsto> ''bar''] DIRENV_WATCHES = None"
    by (simp add: RecordState_other)
  show "RecordState toy_pkg ex_rc Map.empty [''FOO'' \<mapsto> ''bar''] DIRENV_WATCHES
       \<noteq> Some (Marshal toy_pkg (times ex_rc))"
    by (simp only: n) simp
  show "Marshal toy_pkg (times ex_rc) =
       ''/home/u/proj/.envrc+/home/u/.config/direnv/allow/'' @ replicate 62 CHR ''0'' @ ''22-''"
    using ex_Marshal by (simp only: toy_pkg_sel)
  show "Load marker_pkg ok_fs ex_rc ex_cfg Map.empty =
     Returns (RecordState marker_pkg ex_rc Map.empty [''FOO'' \<mapsto> ''bar''], None,
              [ex_cmd ''/bin/bash'' (toy_ToGoEnv (Map.empty(DIRENV_WATCHES \<mapsto> toy_Marshal (times ex_rc))))])"
    by (rule marker_Load)
  show "RecordState marker_pkg ex_rc Map.empty [''FOO'' \<mapsto> ''bar''] DIRENV_DIFF = Some []"
    by (rule marker_recorded)
  show "Serialize marker_pkg (Diff marker_pkg Map.empty
         (RecordState marker_pkg ex_rc Map.empty [''FOO'' \<mapsto> ''bar'']))
       = ''set DIRENV_DIFF=''"
    by (rule marker_rediffed)
  show "RecordState marker_pkg ex_rc Map.empty [''FOO'' \<mapsto> ''bar''] DIRENV_DIFF
       \<noteq> Some (Serialize marker_pkg (Diff marker_pkg Map.empty
                 (RecordState marker_pkg ex_rc Map.empty [''FOO'' \<mapsto> ''bar''])))"
    by (simp only: marker_recorded marker_rediffed) simp
qed

text \<open>
  Claim C4, as amended. For an allow directory that is a cleaned path other than \<open>/\<close>
  and \<open>.\<close>: the allow path of the RC that \<open>RCFromPath\<close> makes for \<open>p\<close> is the allow
  directory, a separator, and the hex digest of the absolute path of \<open>p\<close>, a newline and
  the file's bytes. The RC keeps \<open>p\<close> as given, and when \<open>Allow\<close> succeeds the file at
  exactly the allow path holds \<open>p\<close> followed by a newline. That is the absolute path
  whenever \<open>p\<close> is its own absolute path, as it is for every RC that \<open>FindRC\<close> returns.
\<close>

theorem allow_record_path_and_payload:
  assumes "RCFromPath pk fs p cfg = Some rc"
    and "Clean (AllowDir cfg) = AllowDir cfg"
    and "AllowDir cfg \<noteq> ''/''" and "AllowDir cfg \<noteq> ''.''"
  shows "path rc = p
         \<and> (\<exists>a w contents. Abs fs p = Inr a \<and> Stat fs a = Inr (File True w contents)
               \<and> allowPath rc = AllowDir cfg @ ''/'' @ hex (sha256 pk (a @ [CHR 0x0A] @ contents)))
         \<and> (\<forall>fs' rc'. Allow pk fs rc = Inr (fs', rc') \<longrightarrow>
               allowPath rc' = allowPath rc
               \<and> (\<exists>r w. Stat fs' (allowPath rc) = Inr (File r w (p @ [CHR 0x0A]))))
         \<and> (\<forall>wd p0. FindRC pk fs wd cfg = Some rc \<longrightarrow> Abs fs wd = Inr p0 \<longrightarrow> IsAbs p0 \<longrightarrow>
               Abs fs p = Inr p)"
proof (intro conjI allI impI)
  show p: "path rc = p" using RCFromPath_Some [OF assms(1)] by simp
  obtain a w contents where a: "Abs fs p = Inr a"
    and st: "Stat fs a = Inr (File True w contents)"
    and ap: "allowPath rc = Join [AllowDir cfg, hex (sha256 pk (a @ [CHR 0x0A] @ contents))]"
    using RCFromPath_Some [OF assms(1)] by blast
  have "Join [AllowDir cfg, hex (sha256 pk (a @ [CHR 0x0A] @ contents))]
                 = AllowDir cfg @ ''/'' @ hex (sha256 pk (a @ [CHR 0x0A] @ contents))"
    using assms(2-4) proper_hex by (rule Join_clean_dir)
  then show "\<exists>a w contents. Abs fs p = Inr a \<and> Stat fs a = Inr (File True w contents)
            \<and> allowPath rc = AllowDir cfg @ ''/'' @ hex (sha256 pk (a @ [CHR 0x0A] @ contents))"
    using a st ap by auto
  fix fs' rc' assume al: "Allow pk fs rc = Inr (fs', rc')"
  show "allowPath rc' = allowPath rc" using Allow_Inr [OF al] by simp
  obtain fs1 where "WriteFile fs1 (allowPath rc) (path rc @ [CHR 0x0A]) = Inr fs'"
    using Allow_Inr [OF al] by blast
  then show "\<exists>r w. Stat fs' (allowPath rc) = Inr (File r w (p @ [CHR 0x0A]))"
    using WriteFile_Stat p by blast
next
  fix wd p0 assume "FindRC pk fs wd cfg = Some rc" "Abs fs wd = Inr p0" "IsAbs p0"
  then have "Abs fs (path rc) = Inr (path rc)" by (rule FindRC_path_absolute)
  moreover have "path rc = p" using RCFromPath_Some [OF assms(1)] by simp
  ultimately show "Abs fs p = Inr p" by simp
qed

theorem allow_record_path_and_payload_witness:
  "RCFromPath toy_pkg ex_fs ''/home/u/proj/.envrc'' ex_cfg = Some ex_rc
   \<and> Clean (AllowDir ex_cfg) = AllowDir ex_cfg
   \<and> AllowDir ex_cfg \<noteq> ''/'' \<and> AllowDir ex_cfg \<noteq> ''.''
   \<and> FindRC toy_pkg ex_fs ''.'' ex_cfg = Some ex_rc
   \<and> Abs ex_fs ''.'' = Inr ''/home/u/proj/sub'' \<and> IsAbs ''/home/u/proj/sub''
   \<and> Abs ex_fs ''/home/u/proj/.envrc'' = Inr ''/home/u/proj/.envrc''
   \<and> Stat ex_fs ''/home/u/proj/.envrc'' = Inr (File True True ''export FOO=bar'')
   \<and> allowPath ex_rc = AllowDir ex_cfg @ ''/''
         @ hex (sha256 toy_pkg (''/home/u/proj/.envrc'' @ [CHR 0x0A] @ ''export FOO=bar''))
   \<and> Allow toy_pkg ex_fs ex_rc =
         Inr (ok_fs, ex_rc\<lparr>times := times ex_rc @ [(ex_allowPath, True)]\<rparr>)
   \<and> Stat ok_fs (allowPath ex_rc) = Inr (File True True (''/home/u/proj/.envrc'' @ [CHR 0x0A]))"
proof -
  have c: "Clean (AllowDir ex_cfg) = AllowDir ex_cfg" using ex_AllowDir_clean by simp
  have n1: "AllowDir ex_cfg \<noteq> ''/''" and n2: "AllowDir ex_cfg \<noteq> ''.''" by simp_all
  have ap: "allowPath ex_rc = AllowDir ex_cfg @ ''/''
         @ hex (sha256 toy_pkg (''/home/u/proj/.envrc'' @ [CHR 0x0A] @ ''export FOO=bar''))"
    using allow_record_path_and_payload [OF ex_RCFromPath c n1 n2] ex_Abs ex_Stat
    by auto
  have i: "IsAbs ''/home/u/proj/sub''" by (simp add: IsAbs_def sep_def)
  show ?thesis
    using ex_RCFromPath ex_Abs c n1 n2 ex_Stat ap ex_Allow ok_Stat ex_FindRC ex_Abs_dot i
    by simp
qed

text \<open>
  The claim as stated fails for a relative path: \<open>RCFromPath\<close> on \<open>../.envrc\<close> from
  \<open>/home/u/proj/sub\<close> hashes the absolute path \<open>/home/u/proj/.envrc\<close>, but the record
  that \<open>Allow\<close> writes holds \<open>../.envrc\<close> and a newline.
\<close>

theorem allow_payload_counterexample:
  "RCFromPath toy_pkg rel_fs ''../.envrc'' ex_cfg = Some rel_rc
   \<and> Abs rel_fs ''../.envrc'' = Inr ''/home/u/proj/.envrc''
   \<and> Allow toy_pkg rel_fs rel_rc =
         Inr (rel_ok_fs, rel_rc\<lparr>times := times rel_rc @ [(ex_allowPath, True)]\<rparr>)
   \<and> Stat rel_ok_fs (allowPath rel_rc) = Inr (File True True (''../.envrc'' @ [CHR 0x0A]))
   \<and> ''../.envrc'' @ [CHR 0x0A] \<noteq> ''/home/u/proj/.envrc'' @ [CHR 0x0A]"
  using rel_RCFromPath rel_Abs rel_Allow rel_ok_Stat
  by simp

text \<open>
  Claim C5. With an empty whitelist: once \<open>Allow\<close> has succeeded, \<open>Allowed\<close> is true;
  \<open>Deny\<close> then succeeds, and after any successful \<open>Deny\<close> \<open>Allowed\<close> is false.
\<close>

theorem allow_deny_round_trip:
  assumes "Allow pk fs rc = Inr (fs1, rc1)"
    and "WhitelistPrefix (config rc) = []" and "\<forall>p. \<not> WhitelistExact (config rc) p"
  shows "Allowed fs1 rc1
         \<and> (\<exists>fs2. Deny fs1 rc1 = Inr fs2)
         \<and> (\<forall>fs2. Deny fs1 rc1 = Inr fs2 \<longrightarrow> \<not> Allowed fs2 rc1)"
proof (intro conjI allI impI)
  have same: "allowPath rc1 = allowPath rc" "config rc1 = config rc"
    using Allow_Inr [OF assms(1)] by simp_all
  obtain fs0 where "WriteFile fs0 (allowPath rc) (path rc @ [CHR 0x0A]) = Inr fs1"
    using Allow_Inr [OF assms(1)] by blast
  then obtain r w where st: "Stat fs1 (allowPath rc1) = Inr (File r w (path rc @ [CHR 0x0A]))"
    using WriteFile_Stat same by metis
  then show "Allowed fs1 rc1" by (simp add: Allowed_def)
  show "\<exists>fs2. Deny fs1 rc1 = Inr fs2"
    using Remove_file [OF st] by (simp add: Deny_def)
  fix fs2 assume "Deny fs1 rc1 = Inr fs2"
  then have "Stat fs2 (allowPath rc1) = Inl ENOENT"
    using Remove_Stat by (simp add: Deny_def)
  then show "\<not> Allowed fs2 rc1"
    using assms(2,3) same by (simp add: Allowed_def split: sum.splits)
qed

theorem allow_deny_round_trip_witness:
  "Allow toy_pkg ex_fs ex_rc =
     Inr (ok_fs, ex_rc\<lparr>times := times ex_rc @ [(ex_allowPath, True)]\<rparr>)
   \<and> WhitelistPrefix (config ex_rc) = [] \<and> (\<forall>p. \<not> WhitelistExact (config ex_rc) p)
   \<and> Allowed ok_fs (ex_rc\<lparr>times := times ex_rc @ [(ex_allowPath, True)]\<rparr>)
   \<and> Deny ok_fs (ex_rc\<lparr>times := times ex_rc @ [(ex_allowPath, True)]\<rparr>) =
         Inr (ok_fs\<lparr>inodes := (inodes ok_fs)(ex_allowPath := None)\<rparr>)
   \<and> \<not> Allowed (ok_fs\<lparr>inodes := (inodes ok_fs)(ex_allowPath := None)\<rparr>)
           (ex_rc\<lparr>times := times ex_rc @ [(ex_allowPath, True)]\<rparr>)"
proof -
  have w1: "WhitelistPrefix (config ex_rc) = []" by simp
  have w2: "\<forall>p. \<not> WhitelistExact (config ex_rc) p" by simp
  show ?thesis
    using allow_deny_round_trip [OF ex_Allow w1 w2] ex_Allow w1 w2 ok_Remove
    by simp
qed

text \<open>
  Claim C6, as amended. When the configuration file is not allowed, \<open>Load\<close> runs no
  command. It first asks \<open>rc.RelTo(wd)\<close> for the display path: when that returns,
  \<open>Load\<close> returns the error formatted from \<open>NOT_ALLOWED\<close>, the display path followed
  by the instruction to run \<open>direnv allow\<close>, with an empty list of commands; when
  \<open>RelTo\<close> panics (no absolute path, or \<open>filepath.Rel\<close> fails), \<open>Load\<close> panics
  and returns no error at all.
\<close>

theorem Load_blocked_before_spawn:
  assumes "\<not> Allowed fs rc"
  shows "Load pk fs rc cfg env =
     (case RelTo pk fs rc (WorkDir cfg) of
        Panics \<Rightarrow> Panics
      | Returns rel \<Rightarrow>
          Returns
            (RecordState pk rc env ((Copy env)(DIRENV_WATCHES \<mapsto> Marshal pk (times rc))),
             Some (Errorf (rel @ '' is blocked. Run `direnv allow` to approve its content'')),
             []))"
  using assms by (simp add: Load_not_allowed NOT_ALLOWED_def split: outcome.splits)

theorem Load_blocked_before_spawn_witness:
  "\<not> Allowed ex_fs ex_rc
   \<and> RelTo toy_pkg ex_fs ex_rc (WorkDir ex_cfg) = Returns ''../.envrc''
   \<and> Load toy_pkg ex_fs ex_rc ex_cfg [''FOO'' \<mapsto> ''old''] =
          Returns (RecordState toy_pkg ex_rc [''FOO'' \<mapsto> ''old'']
                     ((Copy [''FOO'' \<mapsto> ''old''])(DIRENV_WATCHES \<mapsto> Marshal toy_pkg (times ex_rc))),
                   Some (Errorf ''../.envrc is blocked. Run `direnv allow` to approve its content''),
                   [])"
proof -
  have r: "RelTo toy_pkg ex_fs ex_rc (WorkDir ex_cfg) = Returns ''../.envrc''"
    using ex_RelTo by simp
  have "Load toy_pkg ex_fs ex_rc ex_cfg [''FOO'' \<mapsto> ''old''] =
          Returns (RecordState toy_pkg ex_rc [''FOO'' \<mapsto> ''old'']
                     ((Copy [''FOO'' \<mapsto> ''old''])(DIRENV_WATCHES \<mapsto> Marshal toy_pkg (times ex_rc))),
                   Some (Errorf ''../.envrc is blocked. Run `direnv allow` to approve its content''),
                   [])"
    using Load_blocked_before_spawn [OF ex_not_Allowed, of toy_pkg ex_cfg "[''FOO'' \<mapsto> ''old'']"]
    by (simp only: r outcome.case) simp
  then show ?thesis using ex_not_Allowed r by blast
qed

text \<open>
  The claim as stated fails where \<open>RelTo\<close> panics. An RC with the relative path
  \<open>../.envrc\<close> is not allowed; its root directory and the working directory's are both
  \<open>/home\<close>, so \<open>RelTo\<close> calls \<open>filepath.Rel\<close> on an absolute and a relative path,
  which fails, and \<open>Load\<close> panics instead of returning the blocked error. The same
  happens when the working directory cannot be read, in \<open>rootDir\<close>.
\<close>

theorem Load_blocked_panic_counterexample:
  "\<not> Allowed ex_fs rel_rc
   \<and> rootDir ex_fs (WorkDir ex_cfg) = Returns ''/home''
   \<and> rootDir ex_fs (path rel_rc) = Returns ''/home''
   \<and> Rel toy_pkg (WorkDir ex_cfg) (path rel_rc) = Inl RelError
   \<and> Load toy_pkg ex_fs rel_rc ex_cfg Map.empty = Panics
   \<and> \<not> Allowed (ex_fs\<lparr>getwd := None\<rparr>) rel_rc
   \<and> Abs (ex_fs\<lparr>getwd := None\<rparr>) (path rel_rc) = Inl GetwdError
   \<and> Load toy_pkg (ex_fs\<lparr>getwd := None\<rparr>) rel_rc ex_cfg Map.empty = Panics"
  using rel_not_Allowed rel_RelTo rel_Rel
  by (simp add: Load_not_allowed)

text \<open>
  Claim C7, as amended. Let \<open>p\<close> be the absolute path of the start directory. \<open>eachDir\<close>
  lists \<open>p\<close> itself and then every ancestor, nearest first, down to the root \<open>/\<close>
  (\<open>ancestors\<close> of the elements of \<open>p\<close>); \<open>findUp\<close> returns \<open>.envrc\<close> in the
  first directory of that list where it exists, and the empty string when there is none.
  \<open>FindRC\<close> returns nil when there is none; when there is one, it returns the RC whose
  path is that located path if the file can be hashed, and nil if it cannot, without
  going on to a farther ancestor. (When the start directory has no absolute path, nothing
  is found: \<open>findUp_no_wd\<close>.)
\<close>

theorem findUp_nearest_ancestor_first:
  assumes "Abs fs wd = Inr p" and "IsAbs p"
  shows "eachDir fs wd = ancestors (path_elems p)
   \<and> hd (eachDir fs wd) = p \<and> last (eachDir fs wd) = ''/''
   \<and> findUp fs wd ''.envrc'' =
        (case find (\<lambda>d. fileExists fs (Join [d, ''.envrc''])) (ancestors (path_elems p)) of
           None \<Rightarrow> []
         | Some d \<Rightarrow> Join [d, ''.envrc''])
   \<and> (\<forall>k. Join [abs_path (take k (path_elems p)), ''.envrc'']
            = abs_path (take k (path_elems p) @ [''.envrc'']))
   \<and> (case find (\<lambda>d. fileExists fs (Join [d, ''.envrc''])) (ancestors (path_elems p)) of
         None \<Rightarrow> FindRC pk fs wd cfg = None
       | Some d \<Rightarrow>
           (case fileHash pk fs (Join [d, ''.envrc'']) of
              Inl e \<Rightarrow> FindRC pk fs wd cfg = None
            | Inr h \<Rightarrow>
                (\<exists>rc. FindRC pk fs wd cfg = Some rc \<and> path rc = Join [d, ''.envrc'']
                   \<and> allowPath rc = Join [AllowDir cfg, h] \<and> config rc = cfg)))"
proof -
  obtain cs where cs: "\<forall>c \<in> set cs. proper c" and p: "p = abs_path cs"
    using Abs_form [OF assms] by blast
  have pe: "path_elems p = cs" using cs p by (simp add: path_elems_abs_path)
  have e: "eachDir fs wd = ancestors cs"
    using assms(1) cs unfolding p by (rule eachDir_abs_path)
  have f: "findUp fs wd ''.envrc'' =
        (case find (\<lambda>d. fileExists fs (Join [d, ''.envrc''])) (ancestors cs) of
           None \<Rightarrow> []
         | Some d \<Rightarrow> Join [d, ''.envrc''])"
    by (simp add: findUp_def e findUp_loop_find)
  have j: "Join [abs_path (take k cs), ''.envrc''] = abs_path (take k cs @ [''.envrc''])" for k
  proof (rule Join_abs_path [OF _ proper_envrc])
    show "\<forall>c \<in> set (take k cs). proper c" using cs by (auto dest: in_set_takeD)
  qed
  have r: "FindRC pk fs wd cfg =
        (case find (\<lambda>d. fileExists fs (Join [d, ''.envrc''])) (ancestors cs) of
           None \<Rightarrow> None
         | Some d \<Rightarrow> RCFromPath pk fs (Join [d, ''.envrc'']) cfg)"
  proof (cases "find (\<lambda>d. fileExists fs (Join [d, ''.envrc''])) (ancestors cs)")
    case None
    then show ?thesis by (simp add: FindRC_def f)
  next
    case (Some d)
    then obtain k where "d = abs_path (take k cs)"
      using set_ancestors [of d cs] by (auto simp: find_Some_iff)
    then have "Join [d, ''.envrc''] \<noteq> []" by (simp add: j)
    then show ?thesis using Some by (simp add: FindRC_def f)
  qed
  have r': "case find (\<lambda>d. fileExists fs (Join [d, ''.envrc''])) (ancestors cs) of
         None \<Rightarrow> FindRC pk fs wd cfg = None
       | Some d \<Rightarrow>
           (case fileHash pk fs (Join [d, ''.envrc'']) of
              Inl e \<Rightarrow> FindRC pk fs wd cfg = None
            | Inr h \<Rightarrow>
                (\<exists>rc. FindRC pk fs wd cfg = Some rc \<and> path rc = Join [d, ''.envrc'']
                   \<and> allowPath rc = Join [AllowDir cfg, h] \<and> config rc = cfg))"
    by (simp add: r RCFromPath_def Let_def split: option.splits sum.splits)
  have hl: "hd (eachDir fs wd) = p \<and> last (eachDir fs wd) = ''/''"
    using ancestors_hd_last [of cs] by (simp add: e p sep_def)
  show ?thesis using e f j r' hl by (simp add: pe)
qed

theorem findUp_nearest_ancestor_first_witness:
  "Abs ex_fs ''.'' = Inr ''/home/u/proj/sub'' \<and> IsAbs ''/home/u/proj/sub''
   \<and> eachDir ex_fs ''.'' = [''/home/u/proj/sub'', ''/home/u/proj'', ''/home/u'', ''/home'', ''/'']
   \<and> \<not> fileExists ex_fs ''/home/u/proj/sub/.envrc'' \<and> fileExists ex_fs ''/home/u/proj/.envrc''
   \<and> findUp ex_fs ''.'' ''.envrc'' = ''/home/u/proj/.envrc''
   \<and> FindRC toy_pkg ex_fs ''.'' ex_cfg = Some ex_rc
   \<and> path ex_rc = ''/home/u/proj/.envrc''"
proof -
  have a: "IsAbs ''/home/u/proj/sub''" by (simp add: IsAbs_def sep_def)
  have e: "eachDir ex_fs ''.'' = [''/home/u/proj/sub'', ''/home/u/proj'', ''/home/u'', ''/home'', ''/'']"
    using findUp_nearest_ancestor_first [OF ex_Abs_dot a, of toy_pkg ex_cfg] ex_eachDir_spec
    by simp
  show ?thesis
    using ex_Abs_dot a e ex_found ex_findUp ex_FindRC by simp
qed

text \<open>
  The claim as stated fails for \<open>FindRC\<close> when the located file cannot be hashed: the
  project's \<open>.envrc\<close> is there but unreadable, \<open>findUp\<close> returns its path, and
  \<open>FindRC\<close> returns nil, although an ancestor (and even a farther one, with a readable
  file) contains the configuration file.
\<close>

theorem FindRC_nil_counterexample:
  "eachDir locked_fs ''.'' = [''/home/u/proj/sub'', ''/home/u/proj'', ''/home/u'', ''/home'', ''/'']
   \<and> \<not> fileExists locked_fs ''/home/u/proj/sub/.envrc''
   \<and> fileExists locked_fs ''/home/u/proj/.envrc''
   \<and> fileExists locked_fs ''/home/u/.envrc''
   \<and> findUp locked_fs ''.'' ''.envrc'' = ''/home/u/proj/.envrc''
   \<and> fileHash toy_pkg locked_fs ''/home/u/proj/.envrc'' = Inl EACCES
   \<and> FindRC toy_pkg locked_fs ''.'' ex_cfg = None"
  using locked_eachDir locked_found locked_findUp locked_fileHash locked_FindRC
  by simp

text \<open>
  Claim C8. With a descriptor argument that parses (or none), \<open>CmdDump\<close> selects the
  target \<open>args[1]\<close>, by default \<open>gzenv\<close>, and the descriptor \<open>args[2]\<close>, by
  default standard output; an unknown target gives the error \<open>unknown target shell\<close>
  and leaves every open file as it was; a known one appends its dump of the environment
  to the selected descriptor (a write to a descriptor that is not open fails, unnoticed).
\<close>

theorem CmdDump_writes_selected_dump:
  assumes "length args \<le> 2 \<or> (\<exists>fd. ParseUint (args ! 2) = Inr fd)"
  shows "CmdDump pk fds env args =
     (let target = (if length args > 1 then args ! 1 else ''gzenv'');
          out = (if length args > 2 then digits_value (args ! 2) else Stdout)
      in case DetectShell pk target of
           None \<Rightarrow>
             (Some (Errorf (''unknown target shell '' @ [CHR 0x27] @ target @ [CHR 0x27])), fds)
         | Some dump \<Rightarrow>
             (None, case fds out of None \<Rightarrow> fds | Some old \<Rightarrow> fds(out \<mapsto> old @ dump env)))"
proof (cases "length args > 2")
  case True
  with assms obtain fd where "ParseUint (args ! 2) = Inr fd" by auto
  then show ?thesis using True
    by (simp add: CmdDump_def Let_def ParseUint_NewFile WriteString_def split: option.splits)
next
  case False
  then show ?thesis
    by (simp add: CmdDump_def Let_def WriteString_def split: option.splits)
qed

theorem CmdDump_writes_selected_dump_witness:
  "(\<exists>fd. ParseUint ([''dump'', ''bash'', ''3''] ! 2) = Inr fd)
   \<and> CmdDump toy_pkg [1 \<mapsto> [], 3 \<mapsto> ''# ''] [''FOO'' \<mapsto> ''bar''] [''dump'', ''bash'', ''3'']
       = (None, [1 \<mapsto> [], 3 \<mapsto> ''# export FOO=bar''])
   \<and> CmdDump toy_pkg [1 \<mapsto> [], 3 \<mapsto> ''# ''] [''FOO'' \<mapsto> ''bar''] [''dump'', ''tcsh'', ''3'']
       = (Some (Errorf (''unknown target shell '' @ [CHR 0x27] @ ''tcsh'' @ [CHR 0x27])), [1 \<mapsto> [], 3 \<mapsto> ''# ''])"
proof -
  have p: "length [''dump'', ''bash'', ''3''] \<le> 2 \<or> (\<exists>fd. ParseUint ([''dump'', ''bash'', ''3''] ! 2) = Inr fd)"
    using ex_ParseUint by simp
  have q: "length [''dump'', ''tcsh'', ''3''] \<le> 2 \<or> (\<exists>fd. ParseUint ([''dump'', ''tcsh'', ''3''] ! 2) = Inr fd)"
    using ex_ParseUint by simp
  have d: "digits_value ''3'' = 3" by (simp add: digits_value_def)
  show ?thesis
    using CmdDump_writes_selected_dump [OF p, of toy_pkg "[1 \<mapsto> [], 3 \<mapsto> ''# '']" "[''FOO'' \<mapsto> ''bar'']"]
      CmdDump_writes_selected_dump [OF q, of toy_pkg "[1 \<mapsto> [], 3 \<mapsto> ''# '']" "[''FOO'' \<mapsto> ''bar'']"]
      ex_ParseUint
    by (simp add: d toy_DetectShell_def toy_ToGoEnv_def fun_upd_twist)
qed

text \<open>
  Claim C9. An RC made by \<open>RCFromEnv\<close> has the empty allow path; \<open>Allow\<close> on it
  fails with \<open>cannot allow empty path\<close>; the \<open>os.Stat\<close> of its allow path always
  fails, so \<open>Allowed\<close> is decided by the whitelist alone.
\<close>

theorem RCFromEnv_no_allow_record:
  "allowPath (RCFromEnv pk p m cfg) = []
   \<and> Allow pk fs (RCFromEnv pk p m cfg) = Inl (Errorf ''cannot allow empty path'')
   \<and> Stat fs (allowPath (RCFromEnv pk p m cfg)) = Inl ENOENT
   \<and> Allowed fs (RCFromEnv pk p m cfg) =
       (case Abs fs p of
          Inl e \<Rightarrow> False
        | Inr a \<Rightarrow> WhitelistExact cfg a \<or> prefix_loop a (WhitelistPrefix cfg))"
  by (auto simp: RCFromEnv_def Let_def Allow_def Allowed_def Stat_empty split: sum.splits)



end
